theory Spec2Isabelle
  imports Complex_Main "HOL-Library.Multiset"
begin

section \<open>Text\<close>

text \<open>
  A Python \<open>str\<close> is a sequence of Unicode code points, and \<open>len\<close> counts code points.
  A text is therefore a list of code points; a literal of the program is written
  \<open>cps ''...''\<close> when it is ASCII, and with its code points spelled out when it is not.
\<close>

type_synonym str = "nat list"

definition cps :: "string \<Rightarrow> str" where
  "cps s = map of_char s"

text \<open>\<open>str(n)\<close> for a non-negative integer: its decimal digits.\<close>

fun str_nat :: "nat \<Rightarrow> str" where
  "str_nat n = (if n < 10 then [48 + n] else str_nat (n div 10) @ [48 + n mod 10])"

declare str_nat.simps [simp del]

text \<open>\<open>s.startswith(p)\<close> and \<open>needle in s\<close>.\<close>

definition startswith :: "str \<Rightarrow> str \<Rightarrow> bool" where
  "startswith s p = (take (length p) s = p)"

fun contains :: "str \<Rightarrow> str \<Rightarrow> bool" where
  "contains needle [] = (needle = [])"
| "contains needle (c # s) = (startswith (c # s) needle \<or> contains needle s)"

text \<open>
  The code points for which \<open>str.isspace\<close> holds; \<open>str.strip()\<close> removes them at both
  ends and the regular expression class \<open>\s\<close> matches exactly them.
\<close>

definition is_space :: "nat \<Rightarrow> bool" where
  "is_space c = ((9 \<le> c \<and> c \<le> 13) \<or> (28 \<le> c \<and> c \<le> 32) \<or> c = 133 \<or> c = 160
     \<or> c = 5760 \<or> (8192 \<le> c \<and> c \<le> 8202) \<or> c = 8232 \<or> c = 8233 \<or> c = 8239
     \<or> c = 8287 \<or> c = 12288)"

definition strip_with :: "(nat \<Rightarrow> bool) \<Rightarrow> str \<Rightarrow> str" where
  "strip_with p s = rev (dropWhile p (rev (dropWhile p s)))"

definition strip :: "str \<Rightarrow> str" where
  "strip s = strip_with is_space s"

text \<open>
  \<open>str.lower()\<close>. Every needle the program looks for in a lower-cased body is ASCII, so
  what matters is which code points lower-case to something containing an ASCII
  character: the capitals \<open>A\<close> to \<open>Z\<close>, U+0130 (to \<open>i\<close> followed by U+0307) and the Kelvin
  sign U+212A (to \<open>k\<close>). All other code points lower-case to code points above 127; they are
  left in place here, which no ASCII needle can tell apart.
\<close>

definition lower_cp :: "nat \<Rightarrow> str" where
  "lower_cp c = (if 65 \<le> c \<and> c \<le> 90 then [c + 32]
                 else if c = 304 then [105, 775]
                 else if c = 8490 then [107]
                 else [c])"

definition lower :: "str \<Rightarrow> str" where
  "lower s = concat (map lower_cp s)"

text \<open>
  \<open>s.replace(old, '')\<close> for a non-empty \<open>old\<close>: the occurrences are deleted from left to
  right, without overlap.
\<close>

fun delete_all :: "str \<Rightarrow> str \<Rightarrow> str" where
  "delete_all old [] = []"
| "delete_all old (c # s) =
     (if old \<noteq> [] \<and> startswith (c # s) old
      then delete_all old (drop (length old - 1) s)
      else c # delete_all old s)"

section \<open>Regular expressions\<close>

text \<open>
  The patterns of the program are sequences of single characters, character sets, and
  greedy or lazy repetitions of one character or set, with at most one group. The matcher
  below is the backtracking search of Python's \<open>re\<close> on such patterns: a greedy
  repetition first takes one more character and gives it back only when the rest of the
  pattern fails, a lazy one first tries the rest of the pattern.

  With \<open>re.IGNORECASE\<close> a letter of the pattern matches both of its cases, and \<open>i\<close>, \<open>s\<close>
  and \<open>k\<close> also match U+0130 and U+0131, U+017F, and U+212A.
\<close>

datatype cset =
    Lit nat
  | OneOf "nat list"
  | NoneOf "nat list"
  | AnyChar
  | Space

datatype atom =
    One cset
  | Star cset
  | Lazy cset
  | Mark

type_synonym regex = "atom list"

definition ci_fold :: "nat \<Rightarrow> nat" where
  "ci_fold c = (if 65 \<le> c \<and> c \<le> 90 then c + 32
                else if c = 304 \<or> c = 305 then 105
                else if c = 383 then 115
                else if c = 8490 then 107
                else c)"

definition lit_match :: "bool \<Rightarrow> nat \<Rightarrow> nat \<Rightarrow> bool" where
  "lit_match ic p c = (if ic then ci_fold c = ci_fold p else c = p)"

fun cmatch :: "bool \<Rightarrow> cset \<Rightarrow> nat \<Rightarrow> bool" where
  "cmatch ic (Lit p) c = lit_match ic p c"
| "cmatch ic (OneOf ps) c = list_ex (\<lambda>p. lit_match ic p c) ps"
| "cmatch ic (NoneOf ps) c = (\<not> list_ex (\<lambda>p. lit_match ic p c) ps)"
| "cmatch ic AnyChar c = True"
| "cmatch ic Space c = is_space c"

text \<open>
  \<open>rmatch ic r s\<close> matches \<open>r\<close> at the start of \<open>s\<close>. It returns the text left after the
  match, and the texts that were left when the group opened and closed.
\<close>

fun rmatch :: "bool \<Rightarrow> regex \<Rightarrow> str \<Rightarrow> (str list \<times> str) option" where
  "rmatch ic [] s = Some ([], s)"
| "rmatch ic (One a # r) [] = None"
| "rmatch ic (One a # r) (c # s) = (if cmatch ic a c then rmatch ic r s else None)"
| "rmatch ic (Star a # r) [] = rmatch ic r []"
| "rmatch ic (Star a # r) (c # s) =
     (if cmatch ic a c
      then (case rmatch ic (Star a # r) s of
              Some m \<Rightarrow> Some m
            | None \<Rightarrow> rmatch ic r (c # s))
      else rmatch ic r (c # s))"
| "rmatch ic (Lazy a # r) [] = rmatch ic r []"
| "rmatch ic (Lazy a # r) (c # s) =
     (case rmatch ic r (c # s) of
        Some m \<Rightarrow> Some m
      | None \<Rightarrow> if cmatch ic a c then rmatch ic (Lazy a # r) s else None)"
| "rmatch ic (Mark # r) s =
     (case rmatch ic r s of
        Some (ms, t) \<Rightarrow> Some (s # ms, t)
      | None \<Rightarrow> None)"

text \<open>The text between two suffixes of one text.\<close>

definition between :: "str \<Rightarrow> str \<Rightarrow> str" where
  "between s t = take (length s - length t) s"

text \<open>
  What \<open>findall\<close> and \<open>group(1)\<close> give for a match that started at \<open>s\<close>: the group when the
  pattern has one, the whole match otherwise.
\<close>

fun capture :: "str \<Rightarrow> str list \<times> str \<Rightarrow> str" where
  "capture s (g1 # g2 # ms, t) = between g1 g2"
| "capture s (ms, t) = between s t"

text \<open>\<open>re.search\<close>: the match at the leftmost position that has one.\<close>

fun re_search :: "bool \<Rightarrow> regex \<Rightarrow> str \<Rightarrow> str option" where
  "re_search ic r [] = map_option (capture []) (rmatch ic r [])"
| "re_search ic r (c # s) =
     (case rmatch ic r (c # s) of
        Some m \<Rightarrow> Some (capture (c # s) m)
      | None \<Rightarrow> re_search ic r s)"

text \<open>
  \<open>re.sub(r, '', s)\<close> and \<open>re.findall(r, s)\<close> scan from left to right and go on after each
  match. Every pattern of the program starts with a literal, so a match is never empty;
  the test on the lengths says so to the termination proof.
\<close>

fun re_sub_del :: "bool \<Rightarrow> regex \<Rightarrow> str \<Rightarrow> str" where
  "re_sub_del ic r [] = []"
| "re_sub_del ic r (c # s) =
     (case rmatch ic r (c # s) of
        Some (ms, t) \<Rightarrow>
          if length t \<le> length s then re_sub_del ic r t else c # re_sub_del ic r s
      | None \<Rightarrow> c # re_sub_del ic r s)"

fun re_findall :: "bool \<Rightarrow> regex \<Rightarrow> str \<Rightarrow> str list" where
  "re_findall ic r [] = []"
| "re_findall ic r (c # s) =
     (case rmatch ic r (c # s) of
        Some (ms, t) \<Rightarrow>
          if length t \<le> length s then capture (c # s) (ms, t) # re_findall ic r t
          else re_findall ic r s
      | None \<Rightarrow> re_findall ic r s)"

text \<open>A run of literal characters, and \<open>x+\<close> as \<open>xx*\<close>.\<close>

definition lits :: "string \<Rightarrow> regex" where
  "lits s = map (\<lambda>c. One (Lit (of_char c))) s"

definition plus :: "cset \<Rightarrow> regex" where
  "plus a = [One a, Star a]"

section \<open>Check results\<close>

text \<open>
  A check result is the dictionary the check modules build for one check. The security
  module leaves \<open>detail\<close> out and the others may set it to \<open>None\<close>; the reporter reads it
  with \<open>get\<close>, which makes no difference between the two.
\<close>

record check =
  pass :: bool
  impact :: str
  category :: str
  detail :: "str option"

text \<open>
  A \<open>dict\<close> keeps its keys in insertion order: \<open>d[k] = v\<close> replaces the value of a key
  that is there, in place, and appends a new key; \<open>d.update(other)\<close> does so for each
  item of \<open>other\<close>.
\<close>

type_synonym 'v pydict = "(str \<times> 'v) list"

fun setitem :: "str \<Rightarrow> 'v \<Rightarrow> 'v pydict \<Rightarrow> 'v pydict" where
  "setitem k v [] = [(k, v)]"
| "setitem k v ((k', v') # d) =
     (if k' = k then (k', v) # d else (k', v') # setitem k v d)"

definition update :: "'v pydict \<Rightarrow> 'v pydict \<Rightarrow> 'v pydict" where
  "update d other = fold (\<lambda>(k, v). setitem k v) other d"

definition getitem :: "'v pydict \<Rightarrow> str \<Rightarrow> 'v option" where
  "getitem d k = map_of d k"

datatype py_error = AttributeError | IndexError | ZeroDivisionError

text \<open>\<open>m.group(1)\<close> on the result of \<open>re.search\<close>, and \<open>xs[0]\<close>.\<close>

definition group1 :: "str option \<Rightarrow> py_error + str" where
  "group1 m = (case m of None \<Rightarrow> Inl AttributeError | Some g \<Rightarrow> Inr g)"

definition item0 :: "'a list \<Rightarrow> py_error + 'a" where
  "item0 xs = (case xs of [] \<Rightarrow> Inl IndexError | x # _ \<Rightarrow> Inr x)"

section \<open>Security checks\<close>

definition security_headers :: "(str \<times> str \<times> str) list" where
  "security_headers =
     [(cps ''strict-transport-security'', cps ''HSTS'', cps ''high''),
      (cps ''x-content-type-options'', cps ''X-Content-Type-Options'', cps ''medium''),
      (cps ''x-frame-options'', cps ''X-Frame-Options'', cps ''medium''),
      (cps ''content-security-policy'', cps ''CSP'', cps ''high''),
      (cps ''referrer-policy'', cps ''Referrer-Policy'', cps ''low''),
      (cps ''permissions-policy'', cps ''Permissions-Policy'', cps ''low'')]"

text \<open>The two quote characters, and the pattern \<^verbatim>\<open><script[^>]*src=["\']http://\<close>.\<close>

definition quotes :: "nat list" where
  "quotes = [34, 39]"

definition script_src_http :: regex where
  "script_src_http =
     lits ''<script'' @ [Star (NoneOf (cps ''>''))] @ lits ''src='' @ [One (OneOf quotes)]
       @ lits ''http://''"

definition no_mixed_content :: "str \<Rightarrow> bool" where
  "no_mixed_content html =
     (\<not> contains (cps ''http://'') (re_sub_del False script_src_http html))"

definition check_security :: "str \<Rightarrow> str \<Rightarrow> str pydict \<Rightarrow> py_error + check pydict" where
  "check_security url html headers =
     (let results = [];
          results = fold (\<lambda>(header, label, imp).
                       setitem label
                         \<lparr>pass = (header \<in> set (map fst headers)), impact = imp,
                          category = cps ''security'', detail = None\<rparr>)
                     security_headers results;
          results = setitem (cps ''HTTPS/SSL'')
                      \<lparr>pass = startswith url (cps ''https://''), impact = cps ''critical'',
                       category = cps ''security'', detail = None\<rparr> results;
          results = setitem (cps ''No mixed content'')
                      \<lparr>pass = no_mixed_content html, impact = cps ''high'',
                       category = cps ''security'', detail = None\<rparr> results
      in Inr results)"

section \<open>SEO checks\<close>

text \<open>
  The patterns \<^verbatim>\<open><title[^>]*>(.*?)</title>\<close>, \<^verbatim>\<open><[^>]+>\<close>,
  \<^verbatim>\<open><meta[^>]+name=["\']description["\'][^>]+content=["\']([^"\']*)["\']\<close>,
  \<^verbatim>\<open><h1[^>]*>(.*?)</h1>\<close> and \<^verbatim>\<open>rel=["\']canonical["\']\<close>. The title and heading
  patterns are used with \<open>re.DOTALL\<close>, so their dot matches every character.
\<close>

definition title_re :: regex where
  "title_re =
     lits ''<title'' @ [Star (NoneOf (cps ''>''))] @ lits ''>'' @ [Mark, Lazy AnyChar, Mark]
       @ lits ''</title>''"

definition tag_re :: regex where
  "tag_re = lits ''<'' @ plus (NoneOf (cps ''>'')) @ lits ''>''"

definition desc_re :: regex where
  "desc_re =
     lits ''<meta'' @ plus (NoneOf (cps ''>'')) @ lits ''name='' @ [One (OneOf quotes)]
       @ lits ''description'' @ [One (OneOf quotes)] @ plus (NoneOf (cps ''>''))
       @ lits ''content='' @ [One (OneOf quotes), Mark, Star (NoneOf quotes), Mark,
                              One (OneOf quotes)]"

definition h1_re :: regex where
  "h1_re =
     lits ''<h1'' @ [Star (NoneOf (cps ''>''))] @ lits ''>'' @ [Mark, Lazy AnyChar, Mark]
       @ lits ''</h1>''"

definition canonical_re :: regex where
  "canonical_re = lits ''rel='' @ [One (OneOf quotes)] @ lits ''canonical'' @ [One (OneOf quotes)]"

text \<open>
  The title as the module reads it: the first group of the first match, with the tags
  inside it removed and the white space around it stripped; \<open>None\<close> when nothing matches.
\<close>

definition title_of :: "str \<Rightarrow> py_error + str option" where
  "title_of html =
     (let title_match = re_search True title_re html
      in if title_match \<noteq> None
         then (case group1 title_match of
                 Inl e \<Rightarrow> Inl e
               | Inr g \<Rightarrow> Inr (Some (strip (re_sub_del False tag_re g))))
         else Inr None)"

definition title_check :: "str option \<Rightarrow> check" where
  "title_check title =
     (if title = None \<or> title = Some []
      then \<lparr>pass = False, impact = cps ''critical'', category = cps ''seo'',
            detail = Some (cps ''Missing'')\<rparr>
      else if length (the title) < 30 \<or> length (the title) > 60
      then \<lparr>pass = False, impact = cps ''high'', category = cps ''seo'',
            detail = Some (str_nat (length (the title)) @ cps '' chars (target: 30-60)'')\<rparr>
      else \<lparr>pass = True, impact = cps ''critical'', category = cps ''seo'',
            detail = Some (take 50 (the title))\<rparr>)"

definition desc_of :: "str \<Rightarrow> py_error + str option" where
  "desc_of html =
     (let desc_match = re_search True desc_re html
      in if desc_match \<noteq> None
         then (case group1 desc_match of
                 Inl e \<Rightarrow> Inl e
               | Inr g \<Rightarrow> Inr (Some g))
         else Inr None)"

definition desc_check :: "str option \<Rightarrow> check" where
  "desc_check desc =
     (if desc = None \<or> desc = Some []
      then \<lparr>pass = False, impact = cps ''high'', category = cps ''seo'',
            detail = Some (cps ''Missing'')\<rparr>
      else if length (the desc) < 70 \<or> length (the desc) > 160
      then \<lparr>pass = False, impact = cps ''medium'', category = cps ''seo'',
            detail = Some (str_nat (length (the desc)) @ cps '' chars (target: 70-160)'')\<rparr>
      else \<lparr>pass = True, impact = cps ''high'', category = cps ''seo'',
            detail = Some (str_nat (length (the desc)) @ cps '' chars '' @ [10003])\<rparr>)"

definition h1_check :: "str list \<Rightarrow> py_error + check" where
  "h1_check h1s =
     (if h1s = []
      then Inr \<lparr>pass = False, impact = cps ''critical'', category = cps ''seo'',
                detail = Some (cps ''Missing'')\<rparr>
      else if length h1s > 1
      then Inr \<lparr>pass = False, impact = cps ''high'', category = cps ''seo'',
                detail = Some (str_nat (length h1s) @ cps '' H1s found (should be 1)'')\<rparr>
      else (case item0 h1s of
              Inl e \<Rightarrow> Inl e
            | Inr h \<Rightarrow> Inr \<lparr>pass = True, impact = cps ''critical'', category = cps ''seo'',
                             detail = Some (take 50 h)\<rparr>))"

definition og_title :: "nat \<Rightarrow> str" where
  "og_title q = cps ''property='' @ [q] @ cps ''og:title'' @ [q]"

definition check_seo :: "str \<Rightarrow> str \<Rightarrow> py_error + check pydict" where
  "check_seo html url =
     (case title_of html of
        Inl e \<Rightarrow> Inl e
      | Inr title \<Rightarrow>
     (let results = setitem (cps ''Title tag'') (title_check title) []
      in case desc_of html of
        Inl e \<Rightarrow> Inl e
      | Inr desc \<Rightarrow>
     (let results = setitem (cps ''Meta description'') (desc_check desc) results;
          h1s = re_findall True h1_re html;
          h1s = map (\<lambda>h. strip (re_sub_del False tag_re h)) h1s
      in case h1_check h1s of
        Inl e \<Rightarrow> Inl e
      | Inr h1 \<Rightarrow>
     (let results = setitem (cps ''H1 tag'') h1 results;
          has_canonical = (re_search True canonical_re html \<noteq> None);
          results = setitem (cps ''Canonical tag'')
                      \<lparr>pass = has_canonical, impact = cps ''high'', category = cps ''seo'',
                       detail = None\<rparr> results;
          has_schema = contains (cps ''application/ld+json'') html;
          results = setitem (cps ''Schema markup'')
                      \<lparr>pass = has_schema, impact = cps ''high'', category = cps ''seo'',
                       detail = None\<rparr> results;
          has_og = (contains (og_title 34) (lower html) \<or> contains (og_title 39) (lower html));
          results = setitem (cps ''Open Graph tags'')
                      \<lparr>pass = has_og, impact = cps ''medium'', category = cps ''seo'',
                       detail = None\<rparr> results
      in Inr results))))"

section \<open>Performance checks\<close>

text \<open>
  The load time is a \<open>float\<close> that \<open>main\<close> has rounded to two decimals, that is, the
  double nearest to a whole number of hundredths of a second; it is modelled as that
  number of hundredths (the clock is taken not to run backwards). Comparing it with \<open>2.0\<close>
  or \<open>3.0\<close> is comparing the hundredths with 200 or 300, since rounding to the nearest
  double keeps the order. In an f-string the float is printed by \<open>repr\<close>: the shortest
  decimal that reads back as the same double, with at least one digit after the point. For
  hundredths this is the decimal without its trailing zero (below \<open>1e16\<close> seconds, from
  where \<open>repr\<close> uses an exponent).
\<close>

definition float_repr :: "nat \<Rightarrow> str" where
  "float_repr t =
     str_nat (t div 100) @ cps ''.'' @
       (if t mod 10 = 0 then str_nat (t mod 100 div 10)
        else str_nat (t mod 100 div 10) @ str_nat (t mod 10))"

text \<open>
  The patterns \<^verbatim>\<open><img[^>]+>\<close>, \<^verbatim>\<open>alt=["\'][^"\']+["\']\<close> and \<^verbatim>\<open>\n\s{10,}\<close>.
\<close>

definition img_re :: regex where
  "img_re = lits ''<img'' @ plus (NoneOf (cps ''>'')) @ lits ''>''"

definition alt_re :: regex where
  "alt_re = lits ''alt='' @ [One (OneOf quotes)] @ plus (NoneOf quotes) @ [One (OneOf quotes)]"

definition bloat_re :: regex where
  "bloat_re = [One (Lit 10)] @ replicate 10 (One Space) @ [Star Space]"

definition name_viewport :: "nat \<Rightarrow> str" where
  "name_viewport q = cps ''name='' @ [q] @ cps ''viewport'' @ [q]"

definition imgs_of :: "str \<Rightarrow> str list" where
  "imgs_of html = re_findall True img_re html"

definition has_alt :: "str \<Rightarrow> bool" where
  "has_alt img = (re_search True alt_re img \<noteq> None)"

definition missing_alt_of :: "str list \<Rightarrow> nat" where
  "missing_alt_of imgs = length (filter (\<lambda>img. \<not> has_alt img) imgs)"

definition alt_detail :: "nat \<Rightarrow> nat \<Rightarrow> str" where
  "alt_detail missing_alt n =
     (if missing_alt \<noteq> 0 then str_nat missing_alt @ cps ''/'' @ str_nat n @ cps '' missing alt''
      else cps ''All '' @ str_nat n @ cps '' have alt text'')"

definition check_performance :: "nat \<Rightarrow> str \<Rightarrow> py_error + check pydict" where
  "check_performance load_time html =
     (let results = [];
          results = setitem (cps ''Load time (<2s)'')
                      \<lparr>pass = (load_time < 200), impact = cps ''high'',
                       category = cps ''performance'',
                       detail = Some (float_repr load_time @ cps ''s'')\<rparr> results;
          results = setitem (cps ''Load time (<3s)'')
                      \<lparr>pass = (load_time < 300), impact = cps ''critical'',
                       category = cps ''performance'',
                       detail = Some (float_repr load_time @ cps ''s'')\<rparr> results;
          has_viewport = (contains (name_viewport 34) (lower html)
                          \<or> contains (name_viewport 39) (lower html));
          results = setitem (cps ''Mobile viewport'')
                      \<lparr>pass = has_viewport, impact = cps ''high'',
                       category = cps ''performance'', detail = None\<rparr> results;
          imgs = imgs_of html;
          missing_alt = missing_alt_of imgs;
          results = (if imgs \<noteq> []
                     then setitem (cps ''Image alt text'')
                            \<lparr>pass = (missing_alt = 0), impact = cps ''medium'',
                             category = cps ''performance'',
                             detail = Some (alt_detail missing_alt (length imgs))\<rparr> results
                     else results);
          long_whitespace = length (re_findall False bloat_re html);
          results = setitem (cps ''HTML not bloated'')
                      \<lparr>pass = (long_whitespace < 50), impact = cps ''low'',
                       category = cps ''performance'', detail = None\<rparr> results
      in Inr results)"

section \<open>Compliance checks\<close>

definition any_in :: "string list \<Rightarrow> str \<Rightarrow> bool" where
  "any_in xs html_lower = list_ex (\<lambda>x. contains (cps x) html_lower) xs"

definition check_compliance :: "str \<Rightarrow> str \<Rightarrow> py_error + check pydict" where
  "check_compliance html url =
     (let results = [];
          html_lower = lower html;
          has_privacy = any_in [''privacy policy'', ''privacy-policy'', ''/privacy'', ''gdpr'',
                                ''data protection''] html_lower;
          results = setitem (cps ''Privacy policy'')
                      \<lparr>pass = has_privacy, impact = cps ''high'',
                       category = cps ''compliance'', detail = None\<rparr> results;
          has_cookie = any_in [''cookie'', ''consent'', ''gdpr'', ''we use cookies''] html_lower;
          results = setitem (cps ''Cookie notice'')
                      \<lparr>pass = has_cookie, impact = cps ''medium'',
                       category = cps ''compliance'', detail = None\<rparr> results;
          has_terms = any_in [''terms of service'', ''terms and conditions'', ''/terms'',
                              ''terms of use''] html_lower;
          results = setitem (cps ''Terms of service'')
                      \<lparr>pass = has_terms, impact = cps ''medium'',
                       category = cps ''compliance'', detail = None\<rparr> results;
          has_contact = any_in [''contact'', ''email'', ''@'', ''mailto:''] html_lower;
          results = setitem (cps ''Contact info'')
                      \<lparr>pass = has_contact, impact = cps ''low'',
                       category = cps ''compliance'', detail = None\<rparr> results
      in Inr results)"

section \<open>Fetching, and the infrastructure checks\<close>

text \<open>
  \<open>fetch_url\<close> talks to the network; what it does is a parameter of the model, a function
  from the URL to either the exception that \<open>urlopen\<close> raises or the response. The
  exceptions are the ways a fetch fails, all of them subclasses of \<open>Exception\<close>: an HTTP
  error status, an unreachable or unresolvable host, a timeout, a TLS failure, and any
  other. A response carries its status, its headers and its body, already decoded.
\<close>

datatype fetch_exception =
    HTTPError nat
  | URLError
  | Timeout
  | SSLError
  | OtherException

record response =
  status :: nat
  headers :: "str pydict"
  body :: str

type_synonym fetcher = "str \<Rightarrow> fetch_exception + response"

definition infra_probes :: "(str \<times> str \<times> str) list" where
  "infra_probes =
     [(cps ''/robots.txt'', cps ''robots.txt'', cps ''medium''),
      (cps ''/sitemap.xml'', cps ''sitemap.xml'', cps ''high'')]"

definition check_infra :: "fetcher \<Rightarrow> str \<Rightarrow> str \<Rightarrow> check pydict" where
  "check_infra fetch_url domain base_url =
     fold (\<lambda>(path, label, imp) results.
             (case fetch_url (base_url @ path) of
                Inr r \<Rightarrow>
                  setitem label \<lparr>pass = (status r = 200), impact = imp,
                                 category = cps ''seo'', detail = None\<rparr> results
              | Inl e \<Rightarrow>
                  setitem label \<lparr>pass = False, impact = imp,
                                 category = cps ''seo'', detail = None\<rparr> results))
          infra_probes []"

section \<open>Double-precision arithmetic\<close>

text \<open>
  The score is computed in floating point, \<open>int((len(passed) / total) * 100)\<close>. A
  non-negative double is a mantissa of at most 53 bits and an exponent, \<open>(m, e)\<close> for
  \<open>m * 2 ^ e\<close>; the quotient of two integers and the product of two doubles are the exact
  results rounded to the nearest double, ties to the even mantissa. The exponent range is
  not modelled: no dictionary is large enough for a quotient to leave it.
\<close>

type_synonym double = "nat \<times> int"

fun bitlen :: "nat \<Rightarrow> nat" where
  "bitlen n = (if n = 0 then 0 else bitlen (n div 2) + 1)"

declare bitlen.simps [simp del]

text \<open>The fraction \<open>n / (d * 2 ^ e)\<close> as a numerator and a denominator.\<close>

definition scale :: "nat \<Rightarrow> nat \<Rightarrow> int \<Rightarrow> nat \<times> nat" where
  "scale n d e = (if 0 \<le> e then (n, d * 2 ^ nat e) else (n * 2 ^ nat (- e), d))"

text \<open>The integer nearest to \<open>n / d\<close>, the even one in a tie.\<close>

definition rne_div :: "nat \<Rightarrow> nat \<Rightarrow> nat" where
  "rne_div n d =
     (let q = n div d; r = n mod d
      in if 2 * r < d then q else if d < 2 * r then q + 1 else if even q then q else q + 1)"

text \<open>
  The double nearest to \<open>n / d\<close>: the exponent is chosen so that the scaled fraction lies
  between \<open>2 ^ 52\<close> and \<open>2 ^ 53\<close>, and the mantissa is the scaled fraction rounded.
\<close>

definition round_frac :: "nat \<Rightarrow> nat \<Rightarrow> double" where
  "round_frac n d =
     (if n = 0 then (0, 0)
      else let e1 = int (bitlen n) - int (bitlen d) - 53;
               e = (if fst (scale n d e1) < 2 ^ 53 * snd (scale n d e1) then e1 else e1 + 1)
           in (rne_div (fst (scale n d e)) (snd (scale n d e)), e))"

text \<open>\<open>a / b\<close> on integers, \<open>x * k\<close> for an integer \<open>k\<close> that is itself a double, and \<open>int(x)\<close>.\<close>

definition truediv :: "nat \<Rightarrow> nat \<Rightarrow> py_error + double" where
  "truediv a b = (if b = 0 then Inl ZeroDivisionError else Inr (round_frac a b))"

definition mul_nat :: "double \<Rightarrow> nat \<Rightarrow> double" where
  "mul_nat x k = round_frac (fst (scale (fst x * k) 1 (- snd x))) (snd (scale (fst x * k) 1 (- snd x)))"

definition py_int :: "double \<Rightarrow> int" where
  "py_int x = int (fst (scale (fst x) 1 (- snd x)) div snd (scale (fst x) 1 (- snd x)))"

text \<open>\<open>int((a / b) * 100)\<close>.\<close>

definition percent :: "nat \<Rightarrow> nat \<Rightarrow> py_error + int" where
  "percent a b =
     (case truediv a b of
        Inl e \<Rightarrow> Inl e
      | Inr x \<Rightarrow> Inr (py_int (mul_nat x 100)))"

text \<open>The number a double stands for.\<close>

definition val :: "double \<Rightarrow> real" where
  "val x = of_nat (fst x) * 2 powi snd x"

section \<open>The report\<close>

text \<open>
  \<open>print_report\<close> computes the scores and the verdict and prints the failed checks, by
  category and sorted by impact, and then the names of the passed ones, by category. The
  model returns what it computes and lists; the banner, the bars drawn from the category
  scores and the footer are fixed text around them.
\<close>

definition impact_order :: "str \<Rightarrow> nat" where
  "impact_order i =
     (if i = cps ''critical'' then 0
      else if i = cps ''high'' then 1
      else if i = cps ''medium'' then 2
      else 3)"

definition categories :: "str list" where
  "categories = [cps ''security'', cps ''seo'', cps ''performance'', cps ''compliance'']"

definition verdict_excellent :: str where
  "verdict_excellent = [128994] @ cps '' Excellent '' @ [8212] @ cps '' well-built site''"

definition verdict_good :: str where
  "verdict_good = [128993] @ cps '' Good '' @ [8212] @ cps '' a few things to fix''"

definition verdict_needs_work :: str where
  "verdict_needs_work =
     [128992] @ cps '' Needs work '' @ [8212] @ cps '' multiple issues detected''"

definition verdict_critical :: str where
  "verdict_critical =
     [128308] @ cps '' Critical '' @ [8212] @ cps '' significant problems found''"

definition verdict_of :: "int \<Rightarrow> str" where
  "verdict_of score =
     (if score \<ge> 85 then verdict_excellent
      else if score \<ge> 65 then verdict_good
      else if score \<ge> 45 then verdict_needs_work
      else verdict_critical)"

record report =
  score :: int
  cat_scores :: "int pydict"
  verdict :: str
  issues :: "(str \<times> check pydict) list"
  passing :: "(str \<times> str list) list"

fun cat_scores_loop :: "check pydict \<Rightarrow> str list \<Rightarrow> int pydict \<Rightarrow> py_error + int pydict" where
  "cat_scores_loop all_checks [] scores = Inr scores"
| "cat_scores_loop all_checks (cat # cats) scores =
     (let cat_checks = filter (\<lambda>(k, v). category v = cat) all_checks
      in if cat_checks \<noteq> []
         then (case percent (length (filter (\<lambda>(k, v). pass v) cat_checks)) (length cat_checks) of
                 Inl e \<Rightarrow> Inl e
               | Inr s \<Rightarrow> cat_scores_loop all_checks cats (setitem cat s scores))
         else cat_scores_loop all_checks cats scores)"

text \<open>
  The failed checks of one category in the order they are printed: \<open>sorted\<close> is stable, as
  \<open>sort_key\<close> is.
\<close>

definition failed_of :: "check pydict \<Rightarrow> str \<Rightarrow> check pydict" where
  "failed_of failed cat =
     sort_key (\<lambda>(name, c). impact_order (impact c))
       (filter (\<lambda>(k, v). category v = cat) failed)"

definition issues_of :: "check pydict \<Rightarrow> (str \<times> check pydict) list" where
  "issues_of failed =
     (if failed \<noteq> []
      then map (\<lambda>cat. (cat, failed_of failed cat))
             (filter (\<lambda>cat. filter (\<lambda>(k, v). category v = cat) failed \<noteq> []) categories)
      else [])"

definition passing_of :: "check pydict \<Rightarrow> (str \<times> str list) list" where
  "passing_of passed =
     map (\<lambda>cat. (cat, map fst (filter (\<lambda>(k, v). category v = cat) passed)))
       (filter (\<lambda>cat. map fst (filter (\<lambda>(k, v). category v = cat) passed) \<noteq> []) categories)"

definition print_report :: "str \<Rightarrow> check pydict \<Rightarrow> nat \<Rightarrow> py_error + report" where
  "print_report domain all_checks load_time =
     (let passed = filter (\<lambda>(k, v). pass v) all_checks;
          failed = filter (\<lambda>(k, v). \<not> pass v) all_checks;
          total = length all_checks
      in case percent (length passed) total of
           Inl e \<Rightarrow> Inl e
         | Inr sc \<Rightarrow>
             (case cat_scores_loop all_checks categories [] of
                Inl e \<Rightarrow> Inl e
              | Inr cs \<Rightarrow>
                  Inr \<lparr>score = sc, cat_scores = cs, verdict = verdict_of sc,
                       issues = issues_of failed, passing = passing_of passed\<rparr>))"

section \<open>The program\<close>

text \<open>
  \<open>main\<close> reads the domain from the command line, fetches the page and measures the time
  this takes (a parameter of the model, in hundredths of a second, as the response is),
  runs the check modules and prints the report. It ends by \<open>sys.exit(1)\<close> when the argument
  is missing or the page cannot be fetched.
\<close>

datatype 'a run =
    Exit_usage
  | Exit_unreachable str fetch_exception
  | Raised py_error
  | Done 'a

definition domain_of :: "str \<Rightarrow> str" where
  "domain_of arg =
     strip_with (\<lambda>c. c = 47) (delete_all (cps ''http://'') (delete_all (cps ''https://'') arg))"

definition run_checks :: "fetcher \<Rightarrow> str \<Rightarrow> str \<Rightarrow> nat \<Rightarrow> str \<Rightarrow> str pydict
    \<Rightarrow> py_error + check pydict" where
  "run_checks fetch_url domain base_url load_time html resp_headers =
     (case check_security base_url html resp_headers of
        Inl e \<Rightarrow> Inl e
      | Inr sec \<Rightarrow>
     (case check_seo html base_url of
        Inl e \<Rightarrow> Inl e
      | Inr seo \<Rightarrow>
     (case check_performance load_time html of
        Inl e \<Rightarrow> Inl e
      | Inr perf \<Rightarrow>
     (case check_compliance html base_url of
        Inl e \<Rightarrow> Inl e
      | Inr compl \<Rightarrow>
          Inr (update (update (update (update (update [] sec) seo) perf) compl)
                 (check_infra fetch_url domain base_url))))))"

definition scan :: "str list \<Rightarrow> fetcher \<Rightarrow> nat \<Rightarrow> (str \<times> check pydict \<times> nat) run" where
  "scan argv fetch_url elapsed =
     (if length argv < 2 then Exit_usage
      else let domain = domain_of (argv ! 1);
               base_url = cps ''https://'' @ domain
           in case fetch_url base_url of
                Inl e \<Rightarrow> Exit_unreachable base_url e
              | Inr r \<Rightarrow>
                  (let load_time = elapsed;
                       html = body r;
                       resp_headers = fold (\<lambda>(k, v). setitem (lower k) v) (headers r) []
                   in case run_checks fetch_url domain base_url load_time html resp_headers of
                        Inl e \<Rightarrow> Raised e
                      | Inr all_checks \<Rightarrow> Done (domain, all_checks, load_time)))"

definition main :: "str list \<Rightarrow> fetcher \<Rightarrow> nat \<Rightarrow> report run" where
  "main argv fetch_url elapsed =
     (case scan argv fetch_url elapsed of
        Exit_usage \<Rightarrow> Exit_usage
      | Exit_unreachable u e \<Rightarrow> Exit_unreachable u e
      | Raised e \<Rightarrow> Raised e
      | Done (domain, all_checks, load_time) \<Rightarrow>
          (case print_report domain all_checks load_time of
             Inl e \<Rightarrow> Raised e
           | Inr rep \<Rightarrow> Done rep))"

section \<open>Reading the results\<close>

text \<open>The check a module has recorded under a name, if the module returned and has one.\<close>

definition lookup :: "py_error + check pydict \<Rightarrow> str \<Rightarrow> check option" where
  "lookup res k = (case res of Inl e \<Rightarrow> None | Inr r \<Rightarrow> getitem r k)"


text \<open>
  The mixed-content check as the specification words it: the script tags whose source
  starts with \<open>http://\<close> are removed from the body, each up to its closing \<open>>\<close>, and the
  check passes when no \<open>http://\<close> is left. It is what the check of the code is compared
  with.
\<close>

definition spec_script_tag :: regex where
  "spec_script_tag = script_src_http @ [Star (NoneOf (cps ''>''))] @ lits ''>''"

definition spec_no_mixed_content :: "str \<Rightarrow> bool" where
  "spec_no_mixed_content html =
     (\<not> contains (cps ''http://'') (re_sub_del False spec_script_tag html))"

section \<open>Evaluation\<close>

text \<open>The equations that evaluate the arithmetic and the texts on concrete inputs.\<close>

lemmas float_ev = percent_def truediv_def mul_nat_def py_int_def round_frac_def scale_def
  rne_div_def bitlen.simps Let_def

lemmas text_ev = cps_def startswith_def strip_def strip_with_def is_space_def lower_def
  lower_cp_def str_nat.simps

lemmas regex_ev = lits_def plus_def quotes_def lit_match_def ci_fold_def between_def

section \<open>The verdict\<close>

lemma verdicts_distinct:
  "verdict_excellent \<noteq> verdict_good" "verdict_excellent \<noteq> verdict_needs_work"
  "verdict_excellent \<noteq> verdict_critical" "verdict_good \<noteq> verdict_needs_work"
  "verdict_good \<noteq> verdict_critical" "verdict_needs_work \<noteq> verdict_critical"
  by (simp_all add: verdict_excellent_def verdict_good_def verdict_needs_work_def
      verdict_critical_def)

lemma verdict_of_tiers:
  "(verdict_of s = verdict_excellent \<longleftrightarrow> 85 \<le> s)
   \<and> (verdict_of s = verdict_good \<longleftrightarrow> 65 \<le> s \<and> s < 85)
   \<and> (verdict_of s = verdict_needs_work \<longleftrightarrow> 45 \<le> s \<and> s < 65)
   \<and> (verdict_of s = verdict_critical \<longleftrightarrow> s < 45)"
  using verdicts_distinct verdicts_distinct [symmetric] by (simp add: verdict_of_def)

lemma print_report_verdict:
  "print_report domain all_checks load_time = Inr rep \<Longrightarrow> verdict rep = verdict_of (score rep)"
  by (auto simp: print_report_def Let_def split: sum.splits)

text \<open>
  C4. The verdict of a report is the tier of its score: excellent exactly from 85 up, good
  exactly from 65 to 84, needs work exactly from 45 to 64, and critical exactly below 45.
  The tiers are those of \<open>verdict_of\<close>, for every integer; so 85 is excellent and 84 is not.
\<close>

theorem verdict_tiers:
  assumes "print_report domain all_checks load_time = Inr rep"
  shows "(verdict rep = verdict_excellent \<longleftrightarrow> 85 \<le> score rep)
     \<and> (verdict rep = verdict_good \<longleftrightarrow> 65 \<le> score rep \<and> score rep < 85)
     \<and> (verdict rep = verdict_needs_work \<longleftrightarrow> 45 \<le> score rep \<and> score rep < 65)
     \<and> (verdict rep = verdict_critical \<longleftrightarrow> score rep < 45)
     \<and> (\<forall>s. (verdict_of s = verdict_excellent \<longleftrightarrow> 85 \<le> s)
            \<and> (verdict_of s = verdict_good \<longleftrightarrow> 65 \<le> s \<and> s < 85)
            \<and> (verdict_of s = verdict_needs_work \<longleftrightarrow> 45 \<le> s \<and> s < 65)
            \<and> (verdict_of s = verdict_critical \<longleftrightarrow> s < 45))
     \<and> verdict_of 85 = verdict_excellent \<and> verdict_of 84 \<noteq> verdict_excellent"
proof -
  have "verdict rep = verdict_of (score rep)"
    using assms by (rule print_report_verdict)
  then show ?thesis
    using verdict_of_tiers [of "score rep"] verdict_of_tiers by simp
qed

theorem verdict_tiers_witness:
  "print_report (cps ''a.io'')
     [(cps ''HSTS'', \<lparr>pass = True, impact = cps ''high'', category = cps ''security'',
                       detail = None\<rparr>)] 150
   = Inr \<lparr>score = 100, cat_scores = [(cps ''security'', 100)], verdict = verdict_excellent,
          issues = [], passing = [(cps ''security'', [cps ''HSTS''])]\<rparr>
   \<and> verdict_of 100 = verdict_excellent"
proof -
  define X where "X = [(cps ''HSTS'', \<lparr>pass = True, impact = cps ''high'',
    category = cps ''security'', detail = None\<rparr>)]"
  have a1: "cat_scores_loop X categories [] = Inr [(cps ''security'', 100)]"
    by (simp add: X_def float_ev categories_def cps_def)
  have a2: "issues_of [] = []"
    by (simp add: issues_of_def)
  have a3: "passing_of X = [(cps ''security'', [cps ''HSTS''])]"
    by (simp add: X_def passing_of_def categories_def cps_def)
  have a4: "filter (\<lambda>(k, v). pass v) X = X" "filter (\<lambda>(k, v). \<not> pass v) X = []"
    "length X = Suc 0"
    by (simp_all add: X_def)
  have a5: "percent (Suc 0) (Suc 0) = Inr 100"
    by (simp add: float_ev)
  have h: "print_report (cps ''a.io'') X 150
   = Inr \<lparr>score = 100, cat_scores = [(cps ''security'', 100)], verdict = verdict_excellent,
          issues = [], passing = [(cps ''security'', [cps ''HSTS''])]\<rparr>"
    by (simp add: print_report_def a1 a2 a3 a4 a5 verdict_of_def)
  show ?thesis
    using verdict_tiers [OF h] h unfolding X_def by simp
qed

section \<open>Dictionaries\<close>

lemma map_of_setitem: "map_of (setitem k v d) = (map_of d)(k \<mapsto> v)"
  by (induction d) (auto simp: fun_eq_iff)

lemma map_fst_setitem:
  "map fst (setitem k v d) = (if k \<in> fst ` set d then map fst d else map fst d @ [k])"
  by (induction d) (auto simp: image_iff, force+)

lemma keys_setitem: "set (map fst (setitem k v d)) = insert k (set (map fst d))"
  unfolding map_fst_setitem by auto

lemma distinct_setitem: "distinct (map fst d) \<Longrightarrow> distinct (map fst (setitem k v d))"
  unfolding map_fst_setitem by auto

lemma fold_setitem_notin:
  "k \<notin> set (map fst other) \<Longrightarrow> map_of (fold (\<lambda>(k, v). setitem k v) other d) k = map_of d k"
  by (induction other arbitrary: d) (auto simp: map_of_setitem)

lemma getitem_update_notin:
  "k \<notin> set (map fst other) \<Longrightarrow> getitem (update d other) k = getitem d k"
  by (simp add: getitem_def update_def fold_setitem_notin)

lemma keys_update: "set (map fst (update d other)) = set (map fst d) \<union> set (map fst other)"
  unfolding update_def
proof (induction other arbitrary: d)
  case Nil
  then show ?case by simp
next
  case (Cons p other)
  obtain k v where p: "p = (k, v)" by (cases p)
  show ?case using Cons [of "setitem k v d"] keys_setitem [of k v d] by (auto simp: p)
qed

lemma distinct_update: "distinct (map fst d) \<Longrightarrow> distinct (map fst (update d other))"
  unfolding update_def by (induction other arbitrary: d) (auto simp: distinct_setitem)

section \<open>What the check modules return\<close>

lemma check_security_eq:
  "check_security url html hdrs =
     Inr [(cps ''HSTS'', \<lparr>pass = (cps ''strict-transport-security'' \<in> fst ` set hdrs),
             impact = cps ''high'', category = cps ''security'', detail = None\<rparr>),
          (cps ''X-Content-Type-Options'', \<lparr>pass = (cps ''x-content-type-options'' \<in> fst ` set hdrs),
             impact = cps ''medium'', category = cps ''security'', detail = None\<rparr>),
          (cps ''X-Frame-Options'', \<lparr>pass = (cps ''x-frame-options'' \<in> fst ` set hdrs),
             impact = cps ''medium'', category = cps ''security'', detail = None\<rparr>),
          (cps ''CSP'', \<lparr>pass = (cps ''content-security-policy'' \<in> fst ` set hdrs),
             impact = cps ''high'', category = cps ''security'', detail = None\<rparr>),
          (cps ''Referrer-Policy'', \<lparr>pass = (cps ''referrer-policy'' \<in> fst ` set hdrs),
             impact = cps ''low'', category = cps ''security'', detail = None\<rparr>),
          (cps ''Permissions-Policy'', \<lparr>pass = (cps ''permissions-policy'' \<in> fst ` set hdrs),
             impact = cps ''low'', category = cps ''security'', detail = None\<rparr>),
          (cps ''HTTPS/SSL'', \<lparr>pass = startswith url (cps ''https://''),
             impact = cps ''critical'', category = cps ''security'', detail = None\<rparr>),
          (cps ''No mixed content'', \<lparr>pass = no_mixed_content html,
             impact = cps ''high'', category = cps ''security'', detail = None\<rparr>)]"
  by (simp add: check_security_def security_headers_def cps_def)

lemma title_of_eq:
  "title_of html =
     Inr (map_option (\<lambda>g. strip (re_sub_del False tag_re g)) (re_search True title_re html))"
  by (cases "re_search True title_re html") (simp_all add: title_of_def group1_def)

lemma desc_of_eq: "desc_of html = Inr (re_search True desc_re html)"
  by (cases "re_search True desc_re html") (simp_all add: desc_of_def group1_def)

lemma h1_check_total: "\<exists>c. h1_check h1s = Inr c"
  by (cases h1s) (simp_all add: h1_check_def item0_def)

lemma check_seo_eq:
  assumes "title_of html = Inr title" and "desc_of html = Inr desc"
    and "h1_check (map (\<lambda>h. strip (re_sub_del False tag_re h)) (re_findall True h1_re html)) = Inr h1"
  shows "check_seo html url =
     Inr [(cps ''Title tag'', title_check title),
          (cps ''Meta description'', desc_check desc),
          (cps ''H1 tag'', h1),
          (cps ''Canonical tag'', \<lparr>pass = (re_search True canonical_re html \<noteq> None),
             impact = cps ''high'', category = cps ''seo'', detail = None\<rparr>),
          (cps ''Schema markup'', \<lparr>pass = contains (cps ''application/ld+json'') html,
             impact = cps ''high'', category = cps ''seo'', detail = None\<rparr>),
          (cps ''Open Graph tags'',
             \<lparr>pass = (contains (og_title 34) (lower html) \<or> contains (og_title 39) (lower html)),
              impact = cps ''medium'', category = cps ''seo'', detail = None\<rparr>)]"
  using assms by (simp add: check_seo_def cps_def Let_def)

lemma check_performance_eq:
  "check_performance t html =
     Inr ([(cps ''Load time (<2s)'', \<lparr>pass = (t < 200), impact = cps ''high'',
              category = cps ''performance'', detail = Some (float_repr t @ cps ''s'')\<rparr>),
           (cps ''Load time (<3s)'', \<lparr>pass = (t < 300), impact = cps ''critical'',
              category = cps ''performance'', detail = Some (float_repr t @ cps ''s'')\<rparr>),
           (cps ''Mobile viewport'',
              \<lparr>pass = (contains (name_viewport 34) (lower html)
                       \<or> contains (name_viewport 39) (lower html)),
               impact = cps ''high'', category = cps ''performance'', detail = None\<rparr>)]
          @ (if imgs_of html \<noteq> []
             then [(cps ''Image alt text'',
                    \<lparr>pass = (missing_alt_of (imgs_of html) = 0), impact = cps ''medium'',
                     category = cps ''performance'',
                     detail = Some (alt_detail (missing_alt_of (imgs_of html))
                                      (length (imgs_of html)))\<rparr>)]
             else [])
          @ [(cps ''HTML not bloated'',
              \<lparr>pass = (length (re_findall False bloat_re html) < 50), impact = cps ''low'',
               category = cps ''performance'', detail = None\<rparr>)])"
  by (simp add: check_performance_def cps_def Let_def)

lemma check_compliance_eq:
  "check_compliance html url =
     Inr [(cps ''Privacy policy'',
            \<lparr>pass = any_in [''privacy policy'', ''privacy-policy'', ''/privacy'', ''gdpr'',
                             ''data protection''] (lower html),
             impact = cps ''high'', category = cps ''compliance'', detail = None\<rparr>),
          (cps ''Cookie notice'',
            \<lparr>pass = any_in [''cookie'', ''consent'', ''gdpr'', ''we use cookies''] (lower html),
             impact = cps ''medium'', category = cps ''compliance'', detail = None\<rparr>),
          (cps ''Terms of service'',
            \<lparr>pass = any_in [''terms of service'', ''terms and conditions'', ''/terms'',
                             ''terms of use''] (lower html),
             impact = cps ''medium'', category = cps ''compliance'', detail = None\<rparr>),
          (cps ''Contact info'',
            \<lparr>pass = any_in [''contact'', ''email'', ''@'', ''mailto:''] (lower html),
             impact = cps ''low'', category = cps ''compliance'', detail = None\<rparr>)]"
  by (simp add: check_compliance_def cps_def Let_def)

lemma check_infra_eq:
  "check_infra fetch_url domain base_url =
     [(cps ''robots.txt'',
        \<lparr>pass = (\<exists>r. fetch_url (base_url @ cps ''/robots.txt'') = Inr r \<and> status r = 200),
         impact = cps ''medium'', category = cps ''seo'', detail = None\<rparr>),
      (cps ''sitemap.xml'',
        \<lparr>pass = (\<exists>r. fetch_url (base_url @ cps ''/sitemap.xml'') = Inr r \<and> status r = 200),
         impact = cps ''high'', category = cps ''seo'', detail = None\<rparr>)]"
  by (cases "fetch_url (base_url @ cps ''/robots.txt'')";
      cases "fetch_url (base_url @ cps ''/sitemap.xml'')")
     (simp_all add: check_infra_def infra_probes_def cps_def)

lemma check_security_keys:
  "\<exists>r. check_security url html hdrs = Inr r
        \<and> map fst r = [cps ''HSTS'', cps ''X-Content-Type-Options'', cps ''X-Frame-Options'',
             cps ''CSP'', cps ''Referrer-Policy'', cps ''Permissions-Policy'', cps ''HTTPS/SSL'',
             cps ''No mixed content'']"
  by (simp add: check_security_eq)

lemma check_seo_keys:
  "\<exists>r. check_seo html url = Inr r
        \<and> map fst r = [cps ''Title tag'', cps ''Meta description'', cps ''H1 tag'',
             cps ''Canonical tag'', cps ''Schema markup'', cps ''Open Graph tags'']"
proof -
  obtain h1 where
    "h1_check (map (\<lambda>h. strip (re_sub_del False tag_re h)) (re_findall True h1_re html)) = Inr h1"
    using h1_check_total by blast
  then show ?thesis
    using check_seo_eq [OF title_of_eq desc_of_eq] by simp
qed

lemma check_performance_keys:
  "\<exists>r. check_performance t html = Inr r
        \<and> map fst r = [cps ''Load time (<2s)'', cps ''Load time (<3s)'', cps ''Mobile viewport'']
             @ (if imgs_of html \<noteq> [] then [cps ''Image alt text''] else [])
             @ [cps ''HTML not bloated'']"
  by (simp add: check_performance_eq)

lemma check_compliance_keys:
  "\<exists>r. check_compliance html url = Inr r
        \<and> map fst r = [cps ''Privacy policy'', cps ''Cookie notice'', cps ''Terms of service'',
             cps ''Contact info'']"
  by (simp add: check_compliance_eq)

text \<open>
  C8. Each of the four check modules returns a dictionary for every body, URL, header
  mapping and load time: none of them ends in an error. The SEO module is the one with
  operations that can raise, \<open>group(1)\<close> on the result of a search and \<open>h1s[0]\<close>, and
  both are only reached where they are defined. The names each module records are fixed,
  but for the image check.
\<close>

theorem check_modules_total:
  "(\<exists>r. check_security url html hdrs = Inr r
        \<and> map fst r = [cps ''HSTS'', cps ''X-Content-Type-Options'', cps ''X-Frame-Options'',
             cps ''CSP'', cps ''Referrer-Policy'', cps ''Permissions-Policy'', cps ''HTTPS/SSL'',
             cps ''No mixed content''])
   \<and> (\<exists>r. check_seo html url = Inr r
        \<and> map fst r = [cps ''Title tag'', cps ''Meta description'', cps ''H1 tag'',
             cps ''Canonical tag'', cps ''Schema markup'', cps ''Open Graph tags''])
   \<and> (\<exists>r. check_performance t html = Inr r
        \<and> map fst r = [cps ''Load time (<2s)'', cps ''Load time (<3s)'', cps ''Mobile viewport'']
             @ (if imgs_of html \<noteq> [] then [cps ''Image alt text''] else [])
             @ [cps ''HTML not bloated''])
   \<and> (\<exists>r. check_compliance html url = Inr r
        \<and> map fst r = [cps ''Privacy policy'', cps ''Cookie notice'', cps ''Terms of service'',
             cps ''Contact info''])"
  using check_security_keys [of url html hdrs] check_seo_keys [of html url]
    check_performance_keys [of t html] check_compliance_keys [of html url]
  by (intro conjI)

section \<open>The infrastructure probes\<close>

text \<open>
  C7. Whatever the fetcher does, the infrastructure check returns its two results. Each
  probe passes exactly when the fetch returns a response with status 200; when the fetch
  raises, the check is recorded as failed, the same record for every exception.
\<close>

theorem infra_probe_outcomes:
  "check_infra fetch_url domain base_url =
     [(cps ''robots.txt'',
        \<lparr>pass = (\<exists>r. fetch_url (base_url @ cps ''/robots.txt'') = Inr r \<and> status r = 200),
         impact = cps ''medium'', category = cps ''seo'', detail = None\<rparr>),
      (cps ''sitemap.xml'',
        \<lparr>pass = (\<exists>r. fetch_url (base_url @ cps ''/sitemap.xml'') = Inr r \<and> status r = 200),
         impact = cps ''high'', category = cps ''seo'', detail = None\<rparr>)]
   \<and> (\<forall>e. fetch_url (base_url @ cps ''/robots.txt'') = Inl e \<longrightarrow>
          getitem (check_infra fetch_url domain base_url) (cps ''robots.txt'')
            = Some \<lparr>pass = False, impact = cps ''medium'', category = cps ''seo'',
                    detail = None\<rparr>)
   \<and> (\<forall>e. fetch_url (base_url @ cps ''/sitemap.xml'') = Inl e \<longrightarrow>
          getitem (check_infra fetch_url domain base_url) (cps ''sitemap.xml'')
            = Some \<lparr>pass = False, impact = cps ''high'', category = cps ''seo'',
                    detail = None\<rparr>)"
  by (simp add: check_infra_eq getitem_def cps_def)

theorem infra_probe_outcomes_witness:
  "getitem (check_infra (\<lambda>u. if u = cps ''https://a.io/robots.txt'' then Inl Timeout
                               else Inl (HTTPError 404))
              (cps ''a.io'') (cps ''https://a.io'')) (cps ''robots.txt'')
     = Some \<lparr>pass = False, impact = cps ''medium'', category = cps ''seo'', detail = None\<rparr>
   \<and> getitem (check_infra (\<lambda>u. if u = cps ''https://a.io/robots.txt'' then Inl Timeout
                               else Inl (HTTPError 404))
              (cps ''a.io'') (cps ''https://a.io'')) (cps ''sitemap.xml'')
     = Some \<lparr>pass = False, impact = cps ''high'', category = cps ''seo'', detail = None\<rparr>"
proof -
  let ?f = "\<lambda>u. if u = cps ''https://a.io/robots.txt'' then Inl Timeout
                 else (Inl (HTTPError 404) :: fetch_exception + response)"
  have r: "?f (cps ''https://a.io'' @ cps ''/robots.txt'') = Inl Timeout"
    by (simp add: cps_def)
  have s: "?f (cps ''https://a.io'' @ cps ''/sitemap.xml'') = Inl (HTTPError 404)"
    by (simp add: cps_def)
  show ?thesis
    using infra_probe_outcomes [of ?f "cps ''a.io''" "cps ''https://a.io''"] r s by blast
qed

section \<open>The load-time checks\<close>






section \<open>The image check\<close>

lemma missing_alt_zero: "missing_alt_of imgs = 0 \<longleftrightarrow> (\<forall>img \<in> set imgs. has_alt img)"
  by (auto simp: missing_alt_of_def filter_empty_conv)

text \<open>
  C5. The performance module always returns, and its results hold the image check exactly
  when the body has a match of the image pattern. The check then passes exactly when
  every image tag found has a match of the \<open>alt\<close> pattern, and its detail is made of
  the number of tags without one and the number of tags: \<open>m/n missing alt\<close>, or
  \<open>All n have alt text\<close> when \<open>m\<close> is 0 (\<open>alt_detail\<close>). With no image tag there is no
  such check in the results.
\<close>

theorem image_alt_check:
  "\<not> isl (check_performance t html)
   \<and> (lookup (check_performance t html) (cps ''Image alt text'') \<noteq> None
        \<longleftrightarrow> imgs_of html \<noteq> [])
   \<and> (imgs_of html \<noteq> [] \<longrightarrow>
        lookup (check_performance t html) (cps ''Image alt text'')
          = Some \<lparr>pass = (\<forall>img \<in> set (imgs_of html). has_alt img),
                  impact = cps ''medium'', category = cps ''performance'',
                  detail = Some (alt_detail (length (filter (\<lambda>img. \<not> has_alt img) (imgs_of html)))
                                   (length (imgs_of html)))\<rparr>)
   \<and> (imgs_of html = [] \<longrightarrow>
        lookup (check_performance t html) (cps ''Image alt text'') = None)"
  using missing_alt_zero [of "imgs_of html"]
  by (simp add: lookup_def getitem_def check_performance_eq cps_def missing_alt_of_def)

theorem image_alt_check_witness:
  "imgs_of (cps ''<p><img src=\"a.png\" alt=\"A\"><IMG src='b.png'><img alt='c' src=\"c.png\"></p>'') \<noteq> []
   \<and> lookup (check_performance 150
        (cps ''<p><img src=\"a.png\" alt=\"A\"><IMG src='b.png'><img alt='c' src=\"c.png\"></p>''))
        (cps ''Image alt text'')
      = Some \<lparr>pass = False, impact = cps ''medium'', category = cps ''performance'',
              detail = Some (cps ''1/3 missing alt'')\<rparr>
   \<and> imgs_of (cps ''<p>no image</p>'') = []
   \<and> lookup (check_performance 150 (cps ''<p>no image</p>'')) (cps ''Image alt text'') = None"
proof -
  let ?W = "cps ''<p><img src=\"a.png\" alt=\"A\"><IMG src='b.png'><img alt='c' src=\"c.png\"></p>''"
  have imgs: "imgs_of ?W = [cps ''<img src=\"a.png\" alt=\"A\">'', cps ''<IMG src='b.png'>'',
      cps ''<img alt='c' src=\"c.png\">'']"
    by (simp add: imgs_of_def img_re_def regex_ev cps_def)
  have alts: "has_alt (cps ''<img src=\"a.png\" alt=\"A\">'')"
    "\<not> has_alt (cps ''<IMG src='b.png'>'')"
    "has_alt (cps ''<img alt='c' src=\"c.png\">'')"
    by (simp_all add: has_alt_def alt_re_def regex_ev cps_def)
  have det: "alt_detail (Suc 0) (Suc (Suc (Suc 0))) = cps ''1/3 missing alt''"
    by (simp add: alt_detail_def text_ev)
  have none: "imgs_of (cps ''<p>no image</p>'') = []"
    by (simp add: imgs_of_def img_re_def regex_ev cps_def)
  show ?thesis
    using image_alt_check [of 150 ?W] image_alt_check [of 150 "cps ''<p>no image</p>''"]
    by (simp add: imgs alts det none)
qed

section \<open>The HTTPS check\<close>

lemma update_empty_security:
  "getitem (update [] r) (cps ''HTTPS/SSL'') = Some c"
  if "check_security url html hdrs = Inr r"
    and "c = \<lparr>pass = startswith url (cps ''https://''), impact = cps ''critical'',
               category = cps ''security'', detail = None\<rparr>"
  using that unfolding check_security_eq
  by (auto simp: update_def getitem_def cps_def)

lemma run_checks_https:
  "\<exists>all_checks. run_checks fetch_url domain base_url t html hdrs = Inr all_checks
     \<and> getitem all_checks (cps ''HTTPS/SSL'')
       = Some \<lparr>pass = startswith base_url (cps ''https://''), impact = cps ''critical'',
               category = cps ''security'', detail = None\<rparr>"
proof -
  obtain sec where sec: "check_security base_url html hdrs = Inr sec"
    by (simp add: check_security_eq)
  obtain seo where seo: "check_seo html base_url = Inr seo"
    and mseo: "map fst seo = [cps ''Title tag'', cps ''Meta description'', cps ''H1 tag'',
             cps ''Canonical tag'', cps ''Schema markup'', cps ''Open Graph tags'']"
    using check_seo_keys [of html base_url] by auto
  have kseo: "cps ''HTTPS/SSL'' \<notin> set (map fst seo)"
    unfolding mseo by (simp add: cps_def)
  obtain perf where perf: "check_performance t html = Inr perf"
    and mperf: "map fst perf
        = [cps ''Load time (<2s)'', cps ''Load time (<3s)'', cps ''Mobile viewport'']
             @ (if imgs_of html \<noteq> [] then [cps ''Image alt text''] else [])
             @ [cps ''HTML not bloated'']"
    using check_performance_keys [of t html] by auto
  have kperf: "cps ''HTTPS/SSL'' \<notin> set (map fst perf)"
    unfolding mperf by (simp add: cps_def)
  obtain compl where compl: "check_compliance html base_url = Inr compl"
    and mcompl: "map fst compl = [cps ''Privacy policy'', cps ''Cookie notice'',
             cps ''Terms of service'', cps ''Contact info'']"
    using check_compliance_keys [of html base_url] by auto
  have kcompl: "cps ''HTTPS/SSL'' \<notin> set (map fst compl)"
    unfolding mcompl by (simp add: cps_def)
  have kinfra: "cps ''HTTPS/SSL'' \<notin> set (map fst (check_infra fetch_url domain base_url))"
    by (simp add: check_infra_eq cps_def)
  have "run_checks fetch_url domain base_url t html hdrs
      = Inr (update (update (update (update (update [] sec) seo) perf) compl)
               (check_infra fetch_url domain base_url))"
    by (simp add: run_checks_def sec seo perf compl)
  moreover have "getitem (update (update (update (update (update [] sec) seo) perf) compl)
               (check_infra fetch_url domain base_url)) (cps ''HTTPS/SSL'')
      = getitem (update [] sec) (cps ''HTTPS/SSL'')"
    by (simp only: getitem_update_notin [OF kinfra] getitem_update_notin [OF kcompl]
        getitem_update_notin [OF kperf] getitem_update_notin [OF kseo])
  ultimately show ?thesis
    using update_empty_security [OF sec refl] by simp
qed

lemma startswith_https: "startswith (cps ''https://'' @ d) (cps ''https://'')"
  by (simp add: startswith_def cps_def)

text \<open>
  C10. The URL that \<open>main\<close> scans is \<open>https://\<close> followed by the domain it has read from
  the command line. So when there is an argument and the page is fetched, the scan ends
  with a set of checks in which the HTTPS check has passed, with impact critical; and
  whenever a scan ends with a set of checks, HTTPS is among the passed ones.
\<close>

theorem https_check_always_passes:
  "(2 \<le> length argv \<and> fetch_url (cps ''https://'' @ domain_of (argv ! 1)) = Inr r \<longrightarrow>
      (\<exists>all_checks.
          scan argv fetch_url elapsed = Done (domain_of (argv ! 1), all_checks, elapsed)
          \<and> getitem all_checks (cps ''HTTPS/SSL'')
            = Some \<lparr>pass = True, impact = cps ''critical'', category = cps ''security'',
                    detail = None\<rparr>))
   \<and> (\<forall>domain all_checks load_time.
        scan argv fetch_url elapsed = Done (domain, all_checks, load_time) \<longrightarrow>
          getitem all_checks (cps ''HTTPS/SSL'')
            = Some \<lparr>pass = True, impact = cps ''critical'', category = cps ''security'',
                    detail = None\<rparr>)"
proof -
  have *: "\<exists>all_checks.
          scan argv fetch_url elapsed = Done (domain_of (argv ! 1), all_checks, elapsed)
          \<and> getitem all_checks (cps ''HTTPS/SSL'')
            = Some \<lparr>pass = True, impact = cps ''critical'', category = cps ''security'',
                    detail = None\<rparr>"
    if "2 \<le> length argv" and "fetch_url (cps ''https://'' @ domain_of (argv ! 1)) = Inr r"
    for r
  proof -
    obtain all_checks where
      rc: "run_checks fetch_url (domain_of (argv ! 1)) (cps ''https://'' @ domain_of (argv ! 1))
             elapsed (body r) (fold (\<lambda>(k, v). setitem (lower k) v) (headers r) [])
           = Inr all_checks"
      and g: "getitem all_checks (cps ''HTTPS/SSL'')
        = Some \<lparr>pass = startswith (cps ''https://'' @ domain_of (argv ! 1)) (cps ''https://''),
                impact = cps ''critical'', category = cps ''security'', detail = None\<rparr>"
      using run_checks_https by blast
    have "scan argv fetch_url elapsed = Done (domain_of (argv ! 1), all_checks, elapsed)"
      using that rc by (simp add: scan_def Let_def)
    then show ?thesis
      using g startswith_https by simp
  qed
  have "getitem all_checks (cps ''HTTPS/SSL'')
            = Some \<lparr>pass = True, impact = cps ''critical'', category = cps ''security'',
                    detail = None\<rparr>"
    if "scan argv fetch_url elapsed = Done (domain, all_checks, load_time)"
    for domain all_checks load_time
  proof -
    from that have len: "2 \<le> length argv"
      by (auto simp: scan_def split: if_splits)
    from that len obtain r where "fetch_url (cps ''https://'' @ domain_of (argv ! 1)) = Inr r"
      by (auto simp: scan_def Let_def split: sum.splits)
    from * [OF len this] that show ?thesis
      by auto
  qed
  with * show ?thesis
    by blast
qed

theorem https_check_always_passes_witness:
  "2 \<le> length [cps ''website_scanner.py'', cps ''http://a.io/'']
   \<and> domain_of ([cps ''website_scanner.py'', cps ''http://a.io/''] ! 1) = cps ''a.io''
   \<and> (\<exists>all_checks.
        scan [cps ''website_scanner.py'', cps ''http://a.io/'']
          (\<lambda>u. if u = cps ''https://a.io''
                then Inr \<lparr>status = 200, headers = [], body = cps ''<html></html>''\<rparr>
                else Inl URLError) 123
          = Done (cps ''a.io'', all_checks, 123)
        \<and> getitem all_checks (cps ''HTTPS/SSL'')
            = Some \<lparr>pass = True, impact = cps ''critical'', category = cps ''security'',
                    detail = None\<rparr>)"
proof -
  let ?argv = "[cps ''website_scanner.py'', cps ''http://a.io/'']"
  let ?f = "\<lambda>u. if u = cps ''https://a.io''
                then Inr \<lparr>status = 200, headers = [], body = cps ''<html></html>''\<rparr>
                else (Inl URLError :: fetch_exception + response)"
  have d: "domain_of (?argv ! 1) = cps ''a.io''"
    by (simp add: domain_of_def text_ev)
  have f: "?f (cps ''https://'' @ domain_of (?argv ! 1))
      = Inr \<lparr>status = 200, headers = [], body = cps ''<html></html>''\<rparr>"
    unfolding d by (simp add: cps_def)
  have l: "2 \<le> length ?argv"
    by simp
  show ?thesis
    using https_check_always_passes [of ?argv ?f
        "\<lparr>status = 200, headers = [], body = cps ''<html></html>''\<rparr>" 123] l f d
    by simp
qed

section \<open>The title check\<close>

lemma cps_append: "cps a @ cps b = cps (a @ b)"
  by (simp add: cps_def)

lemma lookup_title:
  "lookup (check_seo html url) (cps ''Title tag'')
     = Some (title_check (map_option (\<lambda>g. strip (re_sub_del False tag_re g))
                            (re_search True title_re html)))"
proof -
  obtain h1 where
    "h1_check (map (\<lambda>h. strip (re_sub_del False tag_re h)) (re_findall True h1_re html)) = Inr h1"
    using h1_check_total by blast
  then show ?thesis
    using check_seo_eq [OF title_of_eq desc_of_eq]
    by (simp add: lookup_def getitem_def)
qed

text \<open>
  C2, as the specification words it. In this body a title element is found and its content
  has length 0, which is outside 30 to 60; the check fails with impact critical and the
  detail \<open>Missing\<close>, not with impact high and a count.
\<close>

theorem title_counterexample:
  "re_search True title_re (cps ''<html><head><title></title></head></html>'') = Some []
   \<and> lookup (check_seo (cps ''<html><head><title></title></head></html>'') (cps ''https://a.io''))
        (cps ''Title tag'')
     = Some \<lparr>pass = False, impact = cps ''critical'', category = cps ''seo'',
             detail = Some (cps ''Missing'')\<rparr>
   \<and> cps ''critical'' \<noteq> cps ''high''"
proof -
  have s: "re_search True title_re (cps ''<html><head><title></title></head></html>'') = Some []"
    by (simp add: title_re_def regex_ev cps_def)
  show ?thesis
    unfolding lookup_title s
    by (simp add: title_check_def text_ev re_sub_del.simps)
qed

text \<open>
  C2, as the code has it. When the title pattern has no match in the body, or has one
  whose content is empty once its tags are removed and it is stripped, the title check
  fails with impact critical and the detail \<open>Missing\<close>. When the stripped content is not
  empty and shorter than 30 or longer than 60 characters, the check fails with impact high
  and the detail gives the number of characters. From 30 to 60 characters it passes, with
  impact critical and the first 50 characters as detail.
\<close>

theorem title_tag_check:
  "(re_search True title_re html = None \<longrightarrow>
      lookup (check_seo html url) (cps ''Title tag'')
        = Some \<lparr>pass = False, impact = cps ''critical'', category = cps ''seo'',
                detail = Some (cps ''Missing'')\<rparr>)
   \<and> (\<forall>g t. re_search True title_re html = Some g \<and> t = strip (re_sub_del False tag_re g) \<longrightarrow>
        (t = [] \<longrightarrow>
           lookup (check_seo html url) (cps ''Title tag'')
             = Some \<lparr>pass = False, impact = cps ''critical'', category = cps ''seo'',
                     detail = Some (cps ''Missing'')\<rparr>)
      \<and> (t \<noteq> [] \<and> (length t < 30 \<or> 60 < length t) \<longrightarrow>
           lookup (check_seo html url) (cps ''Title tag'')
             = Some \<lparr>pass = False, impact = cps ''high'', category = cps ''seo'',
                     detail = Some (str_nat (length t) @ cps '' chars (target: 30-60)'')\<rparr>)
      \<and> (30 \<le> length t \<and> length t \<le> 60 \<longrightarrow>
           lookup (check_seo html url) (cps ''Title tag'')
             = Some \<lparr>pass = True, impact = cps ''critical'', category = cps ''seo'',
                     detail = Some (take 50 t)\<rparr>))"
  unfolding lookup_title by (auto simp: title_check_def)

lemma search_title_ev:
  "re_search True title_re (cps ''<head><title> Website Health Scanner Tool v1 </title></head>'') = Some (cps '' Website Health Scanner Tool v1 '')"
  "re_search True title_re (cps ''<head><title> Website Health Scanner Tool v </title></head>'') = Some (cps '' Website Health Scanner Tool v '')"
  "re_search True title_re (cps ''<head><title> Website Health Scanner for Founders: Security, SEO and Speed </title></head>'') = Some (cps '' Website Health Scanner for Founders: Security, SEO and Speed '')"
  "re_search True title_re (cps ''<head><title> Website Health Scanner for Founders: Security, SEO and Speeds </title></head>'') = Some (cps '' Website Health Scanner for Founders: Security, SEO and Speeds '')"
  by (simp_all add: title_re_def regex_ev cps_def)

lemma strip_title_ev:
  "strip (re_sub_del False tag_re (cps '' Website Health Scanner Tool v1 '')) = cps ''Website Health Scanner Tool v1''"
  "strip (re_sub_del False tag_re (cps '' Website Health Scanner Tool v '')) = cps ''Website Health Scanner Tool v''"
  "strip (re_sub_del False tag_re (cps '' Website Health Scanner for Founders: Security, SEO and Speed '')) = cps ''Website Health Scanner for Founders: Security, SEO and Speed''"
  "strip (re_sub_del False tag_re (cps '' Website Health Scanner for Founders: Security, SEO and Speeds '')) = cps ''Website Health Scanner for Founders: Security, SEO and Speeds''"
  by (simp_all add: tag_re_def regex_ev text_ev)

theorem title_tag_check_witness:
  "lookup (check_seo (cps ''<head><title> Website Health Scanner Tool v1 </title></head>'') (cps ''https://a.io'')) (cps ''Title tag'')
     = Some \<lparr>pass = True, impact = cps ''critical'', category = cps ''seo'',
             detail = Some (cps ''Website Health Scanner Tool v1'')\<rparr>
   \<and> lookup (check_seo (cps ''<head><title> Website Health Scanner for Founders: Security, SEO and Speed </title></head>'') (cps ''https://a.io'')) (cps ''Title tag'')
     = Some \<lparr>pass = True, impact = cps ''critical'', category = cps ''seo'',
             detail = Some (cps ''Website Health Scanner for Founders: Security, SEO'')\<rparr>
   \<and> lookup (check_seo (cps ''<head><title> Website Health Scanner Tool v </title></head>'') (cps ''https://a.io'')) (cps ''Title tag'')
     = Some \<lparr>pass = False, impact = cps ''high'', category = cps ''seo'',
             detail = Some (cps ''29 chars (target: 30-60)'')\<rparr>
   \<and> lookup (check_seo (cps ''<head><title> Website Health Scanner for Founders: Security, SEO and Speeds </title></head>'') (cps ''https://a.io'')) (cps ''Title tag'')
     = Some \<lparr>pass = False, impact = cps ''high'', category = cps ''seo'',
             detail = Some (cps ''61 chars (target: 30-60)'')\<rparr>"
proof -
  have l: "length (cps ''Website Health Scanner Tool v1'') = 30" "length (cps ''Website Health Scanner Tool v'') = 29"
    "length (cps ''Website Health Scanner for Founders: Security, SEO and Speed'') = 60" "length (cps ''Website Health Scanner for Founders: Security, SEO and Speeds'') = 61"
    by (simp_all add: cps_def)
  have n: "str_nat 29 = cps ''29''" "str_nat 61 = cps ''61''"
    by (simp_all add: text_ev)
  have t: "take 50 (cps ''Website Health Scanner Tool v1'') = cps ''Website Health Scanner Tool v1''" "take 50 (cps ''Website Health Scanner for Founders: Security, SEO and Speed'') = cps ''Website Health Scanner for Founders: Security, SEO''"
    by (simp_all add: cps_def)
  have ne: "cps ''Website Health Scanner Tool v1'' \<noteq> []" "cps ''Website Health Scanner Tool v'' \<noteq> []" "cps ''Website Health Scanner for Founders: Security, SEO and Speed'' \<noteq> []" "cps ''Website Health Scanner for Founders: Security, SEO and Speeds'' \<noteq> []"
    by (simp_all add: cps_def)
  show ?thesis
    using title_tag_check [of "cps ''<head><title> Website Health Scanner Tool v1 </title></head>''" "cps ''https://a.io''"]
      title_tag_check [of "cps ''<head><title> Website Health Scanner Tool v </title></head>''" "cps ''https://a.io''"]
      title_tag_check [of "cps ''<head><title> Website Health Scanner for Founders: Security, SEO and Speed </title></head>''" "cps ''https://a.io''"]
      title_tag_check [of "cps ''<head><title> Website Health Scanner for Founders: Security, SEO and Speeds </title></head>''" "cps ''https://a.io''"]
    by (simp add: search_title_ev strip_title_ev l n t ne cps_append)
qed

section \<open>The mixed-content check\<close>

lemma lookup_mixed:
  "lookup (check_security url html hdrs) (cps ''No mixed content'')
     = Some \<lparr>pass = (\<not> contains (cps ''http://'') (re_sub_del False script_src_http html)),
             impact = cps ''high'', category = cps ''security'', detail = None\<rparr>"
  by (simp add: lookup_def getitem_def check_security_eq no_mixed_content_def cps_def)

lemma mixed_ev:
  "re_sub_del False script_src_http
     (cps ''<script src=\"http://cdn.example.com/a.js\"></script>'')
     = cps ''cdn.example.com/a.js\"></script>''"
  "re_sub_del False script_src_http
     (cps ''<script src=\"http://cdn.example.com/a.js\"></script>Visit http://old.example.com'')
     = cps ''cdn.example.com/a.js\"></script>Visit http://old.example.com''"
  "re_sub_del False script_src_http
     (cps ''<script src=\"http://a.example/x.js?next=http://b.example/\"></script>'')
     = cps ''a.example/x.js?next=http://b.example/\"></script>''"
  "re_sub_del False spec_script_tag
     (cps ''<script src=\"http://a.example/x.js?next=http://b.example/\"></script>'')
     = cps ''</script>''"
  by (simp_all add: script_src_http_def spec_script_tag_def regex_ev cps_def)

lemma contains_ev:
  "\<not> contains (cps ''http://'') (cps ''cdn.example.com/a.js\"></script>'')"
  "contains (cps ''http://'') (cps ''cdn.example.com/a.js\"></script>Visit http://old.example.com'')"
  "contains (cps ''http://'') (cps ''a.example/x.js?next=http://b.example/\"></script>'')"
  "\<not> contains (cps ''http://'') (cps ''</script>'')"
  by (simp_all add: text_ev)

text \<open>
  C3, as the specification words it. The code deletes the start of a script tag, up to
  the \<open>http://\<close> of its source, and leaves the rest of the tag in the body. An \<open>http://\<close>
  further on in the same tag is then found and the check fails, though nothing is left
  of it once the whole tag is removed.
\<close>

theorem mixed_content_counterexample:
  "lookup (check_security (cps ''https://a.io'')
       (cps ''<script src=\"http://a.example/x.js?next=http://b.example/\"></script>'') [])
     (cps ''No mixed content'')
     = Some \<lparr>pass = False, impact = cps ''high'', category = cps ''security'', detail = None\<rparr>
   \<and> re_sub_del False spec_script_tag
       (cps ''<script src=\"http://a.example/x.js?next=http://b.example/\"></script>'')
     = cps ''</script>''
   \<and> spec_no_mixed_content
       (cps ''<script src=\"http://a.example/x.js?next=http://b.example/\"></script>'')"
  unfolding lookup_mixed spec_no_mixed_content_def mixed_ev
  by (simp add: contains_ev)

text \<open>
  C3, as the code has it. The mixed-content check passes exactly when no \<open>http://\<close> is
  left in the body after every match of the script pattern, which ends with the
  \<open>http://\<close> of the source, has been deleted. The body with one such script tag and no
  other \<open>http://\<close> passes, and the body that also holds \<open>Visit http://old.example.com\<close>
  fails.
\<close>

theorem mixed_content_check:
  "lookup (check_security url html hdrs) (cps ''No mixed content'')
     = Some \<lparr>pass = (\<not> contains (cps ''http://'') (re_sub_del False script_src_http html)),
             impact = cps ''high'', category = cps ''security'', detail = None\<rparr>
   \<and> lookup (check_security url
         (cps ''<script src=\"http://cdn.example.com/a.js\"></script>'') hdrs)
       (cps ''No mixed content'')
     = Some \<lparr>pass = True, impact = cps ''high'', category = cps ''security'', detail = None\<rparr>
   \<and> lookup (check_security url
         (cps ''<script src=\"http://cdn.example.com/a.js\"></script>Visit http://old.example.com'')
         hdrs)
       (cps ''No mixed content'')
     = Some \<lparr>pass = False, impact = cps ''high'', category = cps ''security'', detail = None\<rparr>"
  unfolding lookup_mixed mixed_ev
  by (simp add: contains_ev)

section \<open>The lists of the report\<close>

lemma mset_filter_by_cats:
  "distinct cats \<Longrightarrow>
     mset (concat (map (\<lambda>c. filter (\<lambda>x. f x = c) xs) cats))
       = mset (filter (\<lambda>x. f x \<in> set cats) xs)"
proof (induction cats)
  case Nil
  then show ?case by simp
next
  case (Cons c cs)
  have "mset (filter (\<lambda>x. f x = c) xs) + mset (filter (\<lambda>x. f x \<in> set cs) xs)
      = mset (filter (\<lambda>x. f x = c \<or> f x \<in> set cs) xs)"
    using Cons.prems by (induction xs) auto
  with Cons show ?case by simp
qed

lemma mset_concat_skip_empty:
  "mset (concat (map g (filter (\<lambda>c. g c \<noteq> []) cats))) = mset (concat (map g cats))"
  by (induction cats) auto

lemma mset_concat_cong:
  "(\<And>c. c \<in> set cats \<Longrightarrow> mset (g c) = mset (h c)) \<Longrightarrow>
     mset (concat (map g cats)) = mset (concat (map h cats))"
  by (induction cats) auto

lemma distinct_categories: "distinct categories"
  by (simp add: categories_def cps_def)

lemma failed_of_empty: "failed_of failed cat = [] \<longleftrightarrow> filter (\<lambda>(k, v). category v = cat) failed = []"
  unfolding failed_of_def by (metis set_empty set_sort)

lemma mset_failed_of: "mset (failed_of failed cat) = mset (filter (\<lambda>(k, v). category v = cat) failed)"
  by (simp add: failed_of_def)

lemma snd_issues_of:
  "map snd (issues_of failed)
     = map (failed_of failed) (filter (\<lambda>cat. failed_of failed cat \<noteq> []) categories)"
  by (auto simp: issues_of_def failed_of_empty comp_def)

lemma mset_issues_of:
  assumes "\<forall>(k, v) \<in> set failed. category v \<in> set categories"
  shows "mset (concat (map snd (issues_of failed))) = mset failed"
proof -
  have "mset (concat (map snd (issues_of failed)))
      = mset (concat (map (failed_of failed) categories))"
    unfolding snd_issues_of by (rule mset_concat_skip_empty)
  also have "\<dots> = mset (concat (map (\<lambda>c. filter (\<lambda>x. category (snd x) = c) failed) categories))"
    by (rule mset_concat_cong) (simp add: mset_failed_of case_prod_unfold)
  also have "\<dots> = mset (filter (\<lambda>x. category (snd x) \<in> set categories) failed)"
    by (rule mset_filter_by_cats [OF distinct_categories])
  also have "\<dots> = mset failed"
    using assms by (auto simp: filter_id_conv case_prod_unfold intro!: arg_cong [where f = mset])
  finally show ?thesis .
qed

lemma snd_passing_of:
  "map snd (passing_of passed)
     = map (\<lambda>cat. map fst (filter (\<lambda>(k, v). category v = cat) passed))
         (filter (\<lambda>cat. map fst (filter (\<lambda>(k, v). category v = cat) passed) \<noteq> []) categories)"
  by (simp add: passing_of_def comp_def)

lemma mset_passing_of:
  assumes "\<forall>(k, v) \<in> set passed. category v \<in> set categories"
  shows "mset (concat (map snd (passing_of passed))) = mset (map fst passed)"
proof -
  let ?g = "\<lambda>cat. map fst (filter (\<lambda>(k, v). category v = cat) passed)"
  have "mset (concat (map snd (passing_of passed))) = mset (concat (map ?g categories))"
    unfolding snd_passing_of by (rule mset_concat_skip_empty)
  also have "\<dots> = mset (map fst (concat (map (\<lambda>c. filter (\<lambda>x. category (snd x) = c) passed) categories)))"
    by (simp add: map_concat comp_def case_prod_unfold)
  also have "\<dots> = image_mset fst (mset (filter (\<lambda>x. category (snd x) \<in> set categories) passed))"
    using mset_filter_by_cats [OF distinct_categories, of "\<lambda>x. category (snd x)" passed]
    by (metis mset_map)
  also have "\<dots> = mset (map fst passed)"
    using assms by (auto simp: filter_id_conv case_prod_unfold
        intro!: arg_cong [where f = "image_mset fst"] arg_cong [where f = mset])
  finally show ?thesis .
qed


lemma sorted_failed_of:
  "sorted (map (\<lambda>(name, c). impact_order (impact c)) (failed_of failed cat))"
  unfolding failed_of_def by (rule sorted_sort_key)

lemma set_failed_of:
  "set (failed_of failed cat) = {(k, v) \<in> set failed. category v = cat}"
  by (auto simp: failed_of_def)

lemma impact_order_critical_least: "impact_order (cps ''critical'') \<le> impact_order i"
  by (simp add: impact_order_def)

lemma percent_total: "0 < b \<Longrightarrow> \<exists>s. percent a b = Inr s"
  by (simp add: percent_def truediv_def)

lemma cat_scores_loop_total: "\<exists>cs. cat_scores_loop all_checks cats scores = Inr cs"
proof (induction cats arbitrary: scores)
  case Nil
  then show ?case by simp
next
  case (Cons cat cats)
  show ?case
  proof (cases "filter (\<lambda>(k, v). category v = cat) all_checks = []")
    case True
    then show ?thesis using Cons by simp
  next
    case False
    then obtain s where
      "percent (length (filter (\<lambda>(k, v). pass v) (filter (\<lambda>(k, v). category v = cat) all_checks)))
         (length (filter (\<lambda>(k, v). category v = cat) all_checks)) = Inr s"
      using percent_total [of "length (filter (\<lambda>(k, v). category v = cat) all_checks)"]
      by auto
    with False Cons [of "setitem cat s scores"] show ?thesis
      by (simp add: Let_def)
  qed
qed

lemma print_report_lists:
  assumes "print_report domain all_checks load_time = Inr rep"
  shows "issues rep = issues_of (filter (\<lambda>(k, v). \<not> pass v) all_checks)"
    and "passing rep = passing_of (filter (\<lambda>(k, v). pass v) all_checks)"
  using assms by (auto simp: print_report_def Let_def split: sum.splits)

text \<open>
  C9. The reporter lists the failed checks by category and then the names of the passed
  ones by category. For checks whose categories are among the four of the data model,
  the failed list holds exactly the checks that did not pass and the passed list exactly
  the names of those that did, each as often as the dictionary holds it; so, the names of
  a dictionary being distinct, every check is in exactly one of the two lists, once.
  Within a category the failed checks are in ascending order of impact, and critical is
  the least.
\<close>

theorem report_lists:
  assumes "print_report domain all_checks load_time = Inr rep"
    and "\<forall>(k, v) \<in> set all_checks. category v \<in> set categories"
  shows "mset (concat (map snd (issues rep))) = mset (filter (\<lambda>(k, v). \<not> pass v) all_checks)
     \<and> mset (concat (map snd (passing rep)))
         = mset (map fst (filter (\<lambda>(k, v). pass v) all_checks))
     \<and> mset (map fst (concat (map snd (issues rep))) @ concat (map snd (passing rep)))
         = mset (map fst all_checks)
     \<and> (distinct (map fst all_checks) \<longrightarrow>
          distinct (map fst (concat (map snd (issues rep))) @ concat (map snd (passing rep))))
     \<and> (\<forall>(cat, entries) \<in> set (issues rep).
          sorted (map (\<lambda>(name, c). impact_order (impact c)) entries)
          \<and> (\<forall>(name, c) \<in> set entries. category c = cat \<and> \<not> pass c))
     \<and> (\<forall>i. impact_order (cps ''critical'') \<le> impact_order i)"
proof -
  let ?failed = "filter (\<lambda>(k, v). \<not> pass v) all_checks"
  let ?passed = "filter (\<lambda>(k, v). pass v) all_checks"
  have i: "issues rep = issues_of ?failed" and p: "passing rep = passing_of ?passed"
    using print_report_lists [OF assms(1)] by simp_all
  have wf: "\<forall>(k, v) \<in> set ?failed. category v \<in> set categories"
    and wp: "\<forall>(k, v) \<in> set ?passed. category v \<in> set categories"
    using assms(2) by auto
  have a: "mset (concat (map snd (issues rep))) = mset ?failed"
    unfolding i by (rule mset_issues_of [OF wf])
  have b: "mset (concat (map snd (passing rep))) = mset (map fst ?passed)"
    unfolding p by (rule mset_passing_of [OF wp])
  have "mset (map fst ?failed) + mset (map fst ?passed) = mset (map fst all_checks)"
    by (induction all_checks) auto
  then have c: "mset (map fst (concat (map snd (issues rep))) @ concat (map snd (passing rep)))
      = mset (map fst all_checks)"
    using a b by (metis mset_append mset_map)
  have d: "distinct (map fst (concat (map snd (issues rep))) @ concat (map snd (passing rep)))"
    if "distinct (map fst all_checks)"
    using that c by (metis mset_eq_imp_distinct_iff)
  have e: "\<forall>(cat, entries) \<in> set (issues rep).
          sorted (map (\<lambda>(name, c). impact_order (impact c)) entries)
          \<and> (\<forall>(name, c) \<in> set entries. category c = cat \<and> \<not> pass c)"
    unfolding i by (auto simp: issues_of_def sorted_failed_of set_failed_of)
  from a b c d e impact_order_critical_least show ?thesis
    by blast
qed

theorem report_lists_witness:
  "print_report (cps ''a.io'')
     [(cps ''HSTS'', \<lparr>pass = False, impact = cps ''high'', category = cps ''security'',
                       detail = None\<rparr>),
      (cps ''Title tag'', \<lparr>pass = False, impact = cps ''high'', category = cps ''seo'',
                            detail = Some (cps ''1 chars (target: 30-60)'')\<rparr>),
      (cps ''H1 tag'', \<lparr>pass = False, impact = cps ''critical'', category = cps ''seo'',
                         detail = Some (cps ''Missing'')\<rparr>),
      (cps ''CSP'', \<lparr>pass = True, impact = cps ''high'', category = cps ''security'',
                      detail = None\<rparr>)] 150
   = Inr \<lparr>score = 25, cat_scores = [(cps ''security'', 50), (cps ''seo'', 0)],
          verdict = verdict_critical,
          issues = [(cps ''security'',
                      [(cps ''HSTS'', \<lparr>pass = False, impact = cps ''high'',
                          category = cps ''security'', detail = None\<rparr>)]),
                    (cps ''seo'',
                      [(cps ''H1 tag'', \<lparr>pass = False, impact = cps ''critical'',
                          category = cps ''seo'', detail = Some (cps ''Missing'')\<rparr>),
                       (cps ''Title tag'', \<lparr>pass = False, impact = cps ''high'',
                          category = cps ''seo'',
                          detail = Some (cps ''1 chars (target: 30-60)'')\<rparr>)])],
          passing = [(cps ''security'', [cps ''CSP''])]\<rparr>
   \<and> distinct [cps ''HSTS'', cps ''H1 tag'', cps ''Title tag'', cps ''CSP'']"
proof -
  define X where "X = [(cps ''HSTS'', \<lparr>pass = False, impact = cps ''high'', category = cps ''security'',
                       detail = None\<rparr>),
      (cps ''Title tag'', \<lparr>pass = False, impact = cps ''high'', category = cps ''seo'',
                            detail = Some (cps ''1 chars (target: 30-60)'')\<rparr>),
      (cps ''H1 tag'', \<lparr>pass = False, impact = cps ''critical'', category = cps ''seo'',
                         detail = Some (cps ''Missing'')\<rparr>),
      (cps ''CSP'', \<lparr>pass = True, impact = cps ''high'', category = cps ''security'',
                      detail = None\<rparr>)]"
  have f: "filter (\<lambda>(k, v). pass v) X = [X ! 3]" "filter (\<lambda>(k, v). \<not> pass v) X = take 3 X"
    "length X = 4"
    by (simp_all add: X_def)
  have pc: "percent (Suc 0) 4 = Inr 25"
    by (simp add: float_ev)
  have pcs: "percent (Suc 0) (Suc (Suc 0)) = Inr 50" "percent 0 (Suc (Suc 0)) = Inr 0"
    by (simp_all add: float_ev flip: numeral_2_eq_2)
  have cs: "cat_scores_loop X categories [] = Inr [(cps ''security'', 50), (cps ''seo'', 0)]"
    by (simp add: X_def pcs categories_def cps_def)
  have iss: "issues_of (take 3 X) = issues \<lparr>score = 25, cat_scores = [(cps ''security'', 50), (cps ''seo'', 0)],
          verdict = verdict_critical,
          issues = [(cps ''security'',
                      [(cps ''HSTS'', \<lparr>pass = False, impact = cps ''high'',
                          category = cps ''security'', detail = None\<rparr>)]),
                    (cps ''seo'',
                      [(cps ''H1 tag'', \<lparr>pass = False, impact = cps ''critical'',
                          category = cps ''seo'', detail = Some (cps ''Missing'')\<rparr>),
                       (cps ''Title tag'', \<lparr>pass = False, impact = cps ''high'',
                          category = cps ''seo'',
                          detail = Some (cps ''1 chars (target: 30-60)'')\<rparr>)])],
          passing = [(cps ''security'', [cps ''CSP''])]\<rparr>"
    by (simp add: X_def issues_of_def failed_of_def categories_def impact_order_def cps_def)
  have pas: "passing_of [X ! 3] = [(cps ''security'', [cps ''CSP''])]"
    by (simp add: X_def passing_of_def categories_def cps_def)
  have h: "print_report (cps ''a.io'') X 150 = Inr \<lparr>score = 25, cat_scores = [(cps ''security'', 50), (cps ''seo'', 0)],
          verdict = verdict_critical,
          issues = [(cps ''security'',
                      [(cps ''HSTS'', \<lparr>pass = False, impact = cps ''high'',
                          category = cps ''security'', detail = None\<rparr>)]),
                    (cps ''seo'',
                      [(cps ''H1 tag'', \<lparr>pass = False, impact = cps ''critical'',
                          category = cps ''seo'', detail = Some (cps ''Missing'')\<rparr>),
                       (cps ''Title tag'', \<lparr>pass = False, impact = cps ''high'',
                          category = cps ''seo'',
                          detail = Some (cps ''1 chars (target: 30-60)'')\<rparr>)])],
          passing = [(cps ''security'', [cps ''CSP''])]\<rparr>"
    by (simp add: print_report_def f pc cs iss pas verdict_of_def)
  have wf: "\<forall>(k, v) \<in> set X. category v \<in> set categories"
    by (simp add: X_def categories_def)
  have d: "distinct (map fst X)"
    by (simp add: X_def cps_def)
  show ?thesis
    using report_lists [OF h wf] h d unfolding X_def by simp
qed

section \<open>The overall score\<close>

text \<open>
  Rounding to the nearest double changes a number by at most one part in \<open>2 ^ 53\<close>, and
  \<open>int\<close> of a double is the floor of its value.
\<close>

lemma bitlen_pos: "0 < n \<Longrightarrow> 0 < bitlen n"
  by (subst bitlen.simps) simp

lemma bitlen_bounds: "0 < n \<Longrightarrow> 2 ^ (bitlen n - 1) \<le> n \<and> n < 2 ^ bitlen n"
proof (induction n rule: bitlen.induct)
  case (1 n)
  show ?case
  proof (cases "n div 2 = 0")
    case True
    with "1.prems" have "n = 1" by linarith
    then show ?thesis by (simp add: bitlen.simps)
  next
    case False
    then have pos: "0 < n div 2" by simp
    from "1.IH" [OF _ pos] "1.prems"
    have ih: "2 ^ (bitlen (n div 2) - 1) \<le> n div 2" "n div 2 < 2 ^ bitlen (n div 2)"
      by simp_all
    have b: "bitlen n = bitlen (n div 2) + 1"
      using "1.prems" by (subst bitlen.simps) simp
    obtain k where k: "bitlen (n div 2) = Suc k"
      using bitlen_pos [OF pos] by (cases "bitlen (n div 2)") auto
    from ih k have "2 ^ Suc k \<le> 2 * (n div 2)" "2 * (n div 2) + 2 \<le> 2 ^ Suc (Suc k)"
      by simp_all
    then have "2 ^ Suc k \<le> n" "n < 2 ^ Suc (Suc k)"
      by linarith+
    then show ?thesis
      by (simp add: b k)
  qed
qed

lemma scale_val:
  assumes "0 < d"
  shows "0 < snd (scale n d e)"
    and "(of_nat (fst (scale n d e)) :: real) / of_nat (snd (scale n d e))
           = of_nat n / of_nat d / 2 powi e"
  using assms by (auto simp: scale_def power_int_def field_simps)

lemma rne_div_error:
  assumes "0 < d"
  shows "\<bar>(of_nat (rne_div n d) :: real) - of_nat n / of_nat d\<bar> \<le> 1 / 2"
proof -
  define q r where "q = n div d" and "r = n mod d"
  have n: "n = q * d + r" and r: "r < d"
    using assms by (simp_all add: q_def r_def)
  have frac: "(of_nat n :: real) / of_nat d = of_nat q + of_nat r / of_nat d"
    using assms by (simp add: n field_simps)
  have dpos: "(0::real) < of_nat d"
    using assms by simp
  consider "2 * r < d" | "d < 2 * r" | "2 * r = d"
    by linarith
  then show ?thesis
  proof cases
    case 1
    then have "rne_div n d = q"
      by (simp add: rne_div_def q_def r_def)
    moreover from 1 have "(of_nat r :: real) / of_nat d \<le> 1 / 2"
      using dpos by (simp add: field_simps)
    ultimately show ?thesis
      using frac by simp
  next
    case 2
    then have "rne_div n d = q + 1"
      by (simp add: rne_div_def q_def r_def)
    moreover from 2 have "1 / 2 \<le> (of_nat r :: real) / of_nat d"
      using dpos by (simp add: field_simps)
    moreover from r have "(of_nat r :: real) / of_nat d \<le> 1"
      using dpos by simp
    ultimately show ?thesis
      using frac by simp
  next
    case 3
    then have "rne_div n d = q \<or> rne_div n d = q + 1"
      by (simp add: rne_div_def q_def r_def Let_def)
    moreover from 3 have "(of_nat r :: real) / of_nat d = 1 / 2"
      using dpos by (simp add: field_simps)
    ultimately show ?thesis
      using frac by auto
  qed
qed


lemma powi_pos: "(0::real) < 2 powi e"
  by (simp add: power_int_def)

lemma val_zero: "val (0, e) = 0"
  by (simp add: val_def)

lemma round_frac_zero: "round_frac 0 d = (0, 0)"
  by (simp add: round_frac_def)

lemma round_frac_error:
  assumes "0 < d"
  shows "\<bar>val (round_frac n d) - real n / real d\<bar> \<le> real n / real d / 2 ^ 53"
proof (cases "n = 0")
  case True
  then show ?thesis
    by (simp add: round_frac_zero val_zero)
next
  case False
  then have npos: "0 < n" by simp
  define q where "q = real n / real d"
  define e1 where "e1 = int (bitlen n) - int (bitlen d) - 53"
  define e where "e = (if fst (scale n d e1) < 2 ^ 53 * snd (scale n d e1) then e1 else e1 + 1)"
  define m where "m = rne_div (fst (scale n d e)) (snd (scale n d e))"
  have rf: "round_frac n d = (m, e)"
    using False by (simp add: round_frac_def e_def e1_def m_def Let_def)
  have low: "2 ^ 52 * 2 powi e \<le> q"
  proof (cases "fst (scale n d e1) < 2 ^ 53 * snd (scale n d e1)")
    case True
    then have ee: "e = e1" by (simp add: e_def)
    obtain k where k: "bitlen n = Suc k"
      using bitlen_pos [OF npos] by (cases "bitlen n") auto
    have "2 ^ k \<le> n" "d \<le> 2 ^ bitlen d"
      using bitlen_bounds [OF npos] bitlen_bounds [OF assms] k by simp_all
    then have n: "(2::real) ^ k \<le> real n" and d: "real d \<le> 2 ^ bitlen d"
      by (metis of_nat_le_iff of_nat_numeral of_nat_power)+
    have "(2::real) ^ k / 2 ^ bitlen d \<le> real n / real d"
      using n d assms by (intro frac_le) simp_all
    moreover have "(2::real) ^ 52 * 2 powi e1 = 2 ^ k / 2 ^ bitlen d"
    proof -
      have "e1 = int k - int (bitlen d) - 52"
        by (simp add: e1_def k)
      then have "(2::real) ^ 52 * 2 powi e1 = 2 powi (int k - int (bitlen d))"
        by (simp add: power_int_diff)
      then show ?thesis
        by (simp add: power_int_diff)
    qed
    ultimately show ?thesis
      by (simp add: q_def ee)
  next
    case False
    then have ee: "e = e1 + 1" by (simp add: e_def)
    from False have "2 ^ 53 * snd (scale n d e1) \<le> fst (scale n d e1)"
      by simp
    then have "(2::real) ^ 53 * real (snd (scale n d e1)) \<le> real (fst (scale n d e1))"
      by (metis of_nat_le_iff of_nat_mult of_nat_numeral of_nat_power)
    then have "(2::real) ^ 53 \<le> real (fst (scale n d e1)) / real (snd (scale n d e1))"
      using scale_val(1) [OF assms, of n e1] by (simp add: field_simps)
    then have "(2::real) ^ 53 \<le> q / 2 powi e1"
      by (simp add: scale_val(2) [OF assms] q_def)
    then have "(2::real) ^ 53 * 2 powi e1 \<le> q"
      using powi_pos [of e1] by (simp add: field_simps)
    moreover have "(2::real) ^ 52 * 2 powi (e1 + 1) = 2 ^ 53 * 2 powi e1"
      by (simp add: power_int_add)
    ultimately show ?thesis
      by (simp add: ee)
  qed
  have "0 < snd (scale n d e)"
    by (rule scale_val(1) [OF assms])
  then have "\<bar>real m - q / 2 powi e\<bar> \<le> 1 / 2"
    using rne_div_error [of "snd (scale n d e)" "fst (scale n d e)"]
    by (simp add: m_def scale_val(2) [OF assms] q_def)
  then have A: "\<bar>real m - q / 2 powi e\<bar> * 2 powi e \<le> 1 / 2 * 2 powi e"
    using powi_pos [of e] by (intro mult_right_mono) simp_all
  have B: "\<bar>real m - q / 2 powi e\<bar> * 2 powi e = \<bar>val (m, e) - q\<bar>"
  proof -
    have "\<bar>real m - q / 2 powi e\<bar> * 2 powi e = \<bar>(real m - q / 2 powi e) * 2 powi e\<bar>"
      using powi_pos [of e] by (simp add: abs_mult)
    also have "(real m - q / 2 powi e) * 2 powi e = val (m, e) - q"
      using powi_pos [of e] by (simp add: val_def field_simps)
    finally show ?thesis .
  qed
  have C: "1 / 2 * 2 powi e \<le> q / 2 ^ 53"
    using low by (simp add: field_simps)
  from A B C have "\<bar>val (m, e) - q\<bar> \<le> q / 2 ^ 53"
    by linarith
  then show ?thesis
    unfolding rf q_def .
qed


lemma mul_nat_error:
  "\<bar>val (mul_nat x k) - val x * real k\<bar> \<le> val x * real k / 2 ^ 53"
proof -
  have pos: "0 < snd (scale (fst x * k) 1 (- snd x))"
    by (rule scale_val(1)) simp
  have "real (fst (scale (fst x * k) 1 (- snd x))) / real (snd (scale (fst x * k) 1 (- snd x)))
      = val x * real k"
    by (simp add: scale_val(2) val_def power_int_minus field_simps)
  then show ?thesis
    using round_frac_error [OF pos, of "fst (scale (fst x * k) 1 (- snd x))"]
    by (simp add: mul_nat_def)
qed

lemma py_int_floor: "py_int x = \<lfloor>val x\<rfloor>"
proof -
  have "real (fst (scale (fst x) 1 (- snd x))) / real (snd (scale (fst x) 1 (- snd x))) = val x"
    by (simp add: scale_val(2) val_def power_int_minus field_simps)
  then have "\<lfloor>val x\<rfloor>
      = \<lfloor>real (fst (scale (fst x) 1 (- snd x))) / real (snd (scale (fst x) 1 (- snd x)))\<rfloor>"
    by simp
  also have "\<dots> = int (fst (scale (fst x) 1 (- snd x)) div snd (scale (fst x) 1 (- snd x)))"
    by (rule floor_divide_of_nat_eq)
  finally show ?thesis
    by (simp add: py_int_def)
qed

lemma val_nonneg: "0 \<le> val x"
  by (simp add: val_def power_int_def)

text \<open>
  The percentage of \<open>p\<close> out of \<open>t\<close>: 100 when they are equal, 0 when \<open>p\<close> is 0, and the
  exact percentage rounded down when that is not a whole number. The two roundings move
  the product by less than \<open>2 ^ -44\<close>, and a percentage that is not whole is at least
  \<open>1 / t\<close> away from the whole numbers around it.
\<close>

lemma round_frac_same: "0 < t \<Longrightarrow> round_frac t t = (2 ^ 52, - 52)"
  by (simp add: round_frac_def scale_def rne_div_def Let_def)

lemma percent_all: "0 < t \<Longrightarrow> percent t t = Inr 100"
proof -
  assume "0 < t"
  then have "percent t t = Inr (py_int (mul_nat (2 ^ 52, - 52) 100))"
    by (simp add: percent_def truediv_def round_frac_same)
  also have "py_int (mul_nat (2 ^ 52, - 52) 100) = 100"
    by (simp add: float_ev)
  finally show ?thesis .
qed

lemma percent_none: "0 < t \<Longrightarrow> percent 0 t = Inr 0"
  by (simp add: percent_def truediv_def round_frac_zero mul_nat_def py_int_def scale_def)

lemma percent_floor:
  assumes t: "0 < t" and pt: "p \<le> t" and small: "t \<le> 2 ^ 44" and frac: "\<not> t dvd 100 * p"
  shows "percent p t = Inr (int (100 * p div t))"
proof -
  define q where "q = real p / real t"
  define x where "x = round_frac p t"
  define y where "y = mul_nat x 100"
  define k where "k = 100 * p div t"
  define r where "r = 100 * p mod t"
  have tpos: "0 < real t" using t by simp
  have q01: "0 \<le> q" "q \<le> 1"
    using t pt by (simp_all add: q_def)
  define u :: real where "u = 1 / 2 ^ 53"
  have ex: "\<bar>val x - q\<bar> \<le> q / 2 ^ 53"
    unfolding x_def q_def by (rule round_frac_error [OF t])
  have ey: "\<bar>val y - val x * 100\<bar> \<le> val x * 100 / 2 ^ 53"
    unfolding y_def using mul_nat_error [of x 100] by simp
  have qu: "q / 2 ^ 53 \<le> u"
    unfolding u_def using q01 by (intro divide_right_mono) simp_all
  have u1: "u \<le> 1"
    by (simp add: u_def)
  have "\<bar>val x - q\<bar> \<le> u"
    using ex qu by (rule order_trans)
  then have xl: "q - u \<le> val x" and xh: "val x \<le> q + u"
    by linarith+
  have x2: "val x \<le> 2"
    using xh u1 q01 by linarith
  have xu: "val x * 100 / 2 ^ 53 \<le> 200 * u"
    unfolding u_def using x2 by simp
  have "\<bar>val y - val x * 100\<bar> \<le> 200 * u"
    using ey xu by (rule order_trans)
  then have yl: "val x * 100 - 200 * u \<le> val y" and yh: "val y \<le> val x * 100 + 200 * u"
    by linarith+
  have errl: "100 * q - 300 * u \<le> val y" and errh: "val y \<le> 100 * q + 300 * u"
    using xl xh yl yh by linarith+
  have usmall: "300 * u < 1 / 2 ^ 44"
    by (simp add: u_def)
  have r: "0 < r" "r < t"
    using frac t by (auto simp: r_def dvd_eq_mod_eq_0)
  have "100 * p = k * t + r"
    by (simp add: k_def r_def)
  then have "100 * real p = real k * real t + real r"
    by (metis of_nat_add of_nat_mult of_nat_numeral)
  then have q100: "100 * q = real k + real r / real t"
    using tpos by (simp add: q_def field_simps)
  have "real t \<le> 2 ^ 44"
    using small by (metis of_nat_le_iff of_nat_numeral of_nat_power)
  then have inv: "1 / 2 ^ 44 \<le> 1 / real t"
    using tpos by (intro divide_left_mono) simp_all
  have "1 \<le> real r" "real r \<le> real t - 1"
    using r by linarith+
  then have "1 / real t \<le> real r / real t" "real r / real t \<le> 1 - 1 / real t"
    using tpos by (simp_all add: field_simps)
  with inv have rb: "1 / 2 ^ 44 \<le> real r / real t" "real r / real t \<le> 1 - 1 / 2 ^ 44"
    by linarith+
  have "real k < val y" "val y < real k + 1"
    using errl errh usmall q100 rb by linarith+
  then have "\<lfloor>val y\<rfloor> = int k"
    by (intro floor_unique) simp_all
  then show ?thesis
    using t by (simp add: percent_def truediv_def py_int_floor x_def y_def k_def)
qed

text \<open>
  A whole percentage has no such margin, and the rounded product may fall just below it.
  With fewer than fifty checks it never does: for each such total the numbers of passed
  checks with a whole percentage are evaluated one by one.
\<close>

lemma percent_whole_1:
  "1 dvd 100 * p \<Longrightarrow> 0 < p \<Longrightarrow> p < 1 \<Longrightarrow> percent p 1 = Inr (int (100 * p div 1))"
proof -
  assume d: "1 dvd 100 * p" and b: "0 < p" "p < 1"
  from b show ?thesis
    by simp
qed

lemma percent_whole_2:
  "2 dvd 100 * p \<Longrightarrow> 0 < p \<Longrightarrow> p < 2 \<Longrightarrow> percent p 2 = Inr (int (100 * p div 2))"
proof -
  assume d: "2 dvd 100 * p" and b: "0 < p" "p < 2"
  from b have "p = 1"
    by arith
  with d show ?thesis
    by (simp add: float_ev)
qed

lemma percent_whole_3:
  "3 dvd 100 * p \<Longrightarrow> 0 < p \<Longrightarrow> p < 3 \<Longrightarrow> percent p 3 = Inr (int (100 * p div 3))"
proof -
  assume d: "3 dvd 100 * p" and b: "0 < p" "p < 3"
  from b have "p = 1 \<or> p = 2"
    by arith
  with d show ?thesis
    by (elim disjE; hypsubst; ((simp; fail) | simp add: float_ev))
qed

lemma percent_whole_4:
  "4 dvd 100 * p \<Longrightarrow> 0 < p \<Longrightarrow> p < 4 \<Longrightarrow> percent p 4 = Inr (int (100 * p div 4))"
proof -
  assume d: "4 dvd 100 * p" and b: "0 < p" "p < 4"
  from b have "p = 1 \<or> p = 2 \<or> p = 3"
    by arith
  with d show ?thesis
    by (elim disjE; hypsubst; ((simp; fail) | simp add: float_ev))
qed

lemma percent_whole_5:
  "5 dvd 100 * p \<Longrightarrow> 0 < p \<Longrightarrow> p < 5 \<Longrightarrow> percent p 5 = Inr (int (100 * p div 5))"
proof -
  assume d: "5 dvd 100 * p" and b: "0 < p" "p < 5"
  from b have "p = 1 \<or> p = 2 \<or> p = 3 \<or> p = 4"
    by arith
  with d show ?thesis
    by (elim disjE; hypsubst; ((simp; fail) | simp add: float_ev))
qed

lemma percent_whole_6:
  "6 dvd 100 * p \<Longrightarrow> 0 < p \<Longrightarrow> p < 6 \<Longrightarrow> percent p 6 = Inr (int (100 * p div 6))"
proof -
  assume d: "6 dvd 100 * p" and b: "0 < p" "p < 6"
  from b have "p = 1 \<or> p = 2 \<or> p = 3 \<or> p = 4 \<or> p = 5"
    by arith
  with d show ?thesis
    by (elim disjE; hypsubst; ((simp; fail) | simp add: float_ev))
qed

lemma percent_whole_7:
  "7 dvd 100 * p \<Longrightarrow> 0 < p \<Longrightarrow> p < 7 \<Longrightarrow> percent p 7 = Inr (int (100 * p div 7))"
proof -
  assume d: "7 dvd 100 * p" and b: "0 < p" "p < 7"
  from b have "p = 1 \<or> p = 2 \<or> p = 3 \<or> p = 4 \<or> p = 5 \<or> p = 6"
    by arith
  with d show ?thesis
    by (elim disjE; hypsubst; ((simp; fail) | simp add: float_ev))
qed

lemma percent_whole_8:
  "8 dvd 100 * p \<Longrightarrow> 0 < p \<Longrightarrow> p < 8 \<Longrightarrow> percent p 8 = Inr (int (100 * p div 8))"
proof -
  assume d: "8 dvd 100 * p" and b: "0 < p" "p < 8"
  from b have "p = 1 \<or> p = 2 \<or> p = 3 \<or> p = 4 \<or> p = 5 \<or> p = 6 \<or> p = 7"
    by arith
  with d show ?thesis
    by (elim disjE; hypsubst; ((simp; fail) | simp add: float_ev))
qed

lemma percent_whole_9:
  "9 dvd 100 * p \<Longrightarrow> 0 < p \<Longrightarrow> p < 9 \<Longrightarrow> percent p 9 = Inr (int (100 * p div 9))"
proof -
  assume d: "9 dvd 100 * p" and b: "0 < p" "p < 9"
  from b have "p = 1 \<or> p = 2 \<or> p = 3 \<or> p = 4 \<or> p = 5 \<or> p = 6 \<or>
      p = 7 \<or> p = 8"
    by arith
  with d show ?thesis
    by (elim disjE; hypsubst; ((simp; fail) | simp add: float_ev))
qed

lemma percent_whole_10:
  "10 dvd 100 * p \<Longrightarrow> 0 < p \<Longrightarrow> p < 10 \<Longrightarrow> percent p 10 = Inr (int (100 * p div 10))"
proof -
  assume d: "10 dvd 100 * p" and b: "0 < p" "p < 10"
  from b have "p = 1 \<or> p = 2 \<or> p = 3 \<or> p = 4 \<or> p = 5 \<or> p = 6 \<or>
      p = 7 \<or> p = 8 \<or> p = 9"
    by arith
  with d show ?thesis
    by (elim disjE; hypsubst; ((simp; fail) | simp add: float_ev))
qed

lemma percent_whole_11:
  "11 dvd 100 * p \<Longrightarrow> 0 < p \<Longrightarrow> p < 11 \<Longrightarrow> percent p 11 = Inr (int (100 * p div 11))"
proof -
  assume d: "11 dvd 100 * p" and b: "0 < p" "p < 11"
  from b have "p = 1 \<or> p = 2 \<or> p = 3 \<or> p = 4 \<or> p = 5 \<or> p = 6 \<or>
      p = 7 \<or> p = 8 \<or> p = 9 \<or> p = 10"
    by arith
  with d show ?thesis
    by (elim disjE; hypsubst; ((simp; fail) | simp add: float_ev))
qed

lemma percent_whole_12:
  "12 dvd 100 * p \<Longrightarrow> 0 < p \<Longrightarrow> p < 12 \<Longrightarrow> percent p 12 = Inr (int (100 * p div 12))"
proof -
  assume d: "12 dvd 100 * p" and b: "0 < p" "p < 12"
  from b have "p = 1 \<or> p = 2 \<or> p = 3 \<or> p = 4 \<or> p = 5 \<or> p = 6 \<or>
      p = 7 \<or> p = 8 \<or> p = 9 \<or> p = 10 \<or> p = 11"
    by arith
  with d show ?thesis
    by (elim disjE; hypsubst; ((simp; fail) | simp add: float_ev))
qed

lemma percent_whole_13:
  "13 dvd 100 * p \<Longrightarrow> 0 < p \<Longrightarrow> p < 13 \<Longrightarrow> percent p 13 = Inr (int (100 * p div 13))"
proof -
  assume d: "13 dvd 100 * p" and b: "0 < p" "p < 13"
  from b have "p = 1 \<or> p = 2 \<or> p = 3 \<or> p = 4 \<or> p = 5 \<or> p = 6 \<or>
      p = 7 \<or> p = 8 \<or> p = 9 \<or> p = 10 \<or> p = 11 \<or> p = 12"
    by arith
  with d show ?thesis
    by (elim disjE; hypsubst; ((simp; fail) | simp add: float_ev))
qed

lemma percent_whole_14:
  "14 dvd 100 * p \<Longrightarrow> 0 < p \<Longrightarrow> p < 14 \<Longrightarrow> percent p 14 = Inr (int (100 * p div 14))"
proof -
  assume d: "14 dvd 100 * p" and b: "0 < p" "p < 14"
  from b have "p = 1 \<or> p = 2 \<or> p = 3 \<or> p = 4 \<or> p = 5 \<or> p = 6 \<or>
      p = 7 \<or> p = 8 \<or> p = 9 \<or> p = 10 \<or> p = 11 \<or> p = 12 \<or> p = 13"
    by arith
  with d show ?thesis
    by (elim disjE; hypsubst; ((simp; fail) | simp add: float_ev))
qed

lemma percent_whole_15:
  "15 dvd 100 * p \<Longrightarrow> 0 < p \<Longrightarrow> p < 15 \<Longrightarrow> percent p 15 = Inr (int (100 * p div 15))"
proof -
  assume d: "15 dvd 100 * p" and b: "0 < p" "p < 15"
  from b have "p = 1 \<or> p = 2 \<or> p = 3 \<or> p = 4 \<or> p = 5 \<or> p = 6 \<or>
      p = 7 \<or> p = 8 \<or> p = 9 \<or> p = 10 \<or> p = 11 \<or> p = 12 \<or> p = 13 \<or>
      p = 14"
    by arith
  with d show ?thesis
    by (elim disjE; hypsubst; ((simp; fail) | simp add: float_ev))
qed

lemma percent_whole_16:
  "16 dvd 100 * p \<Longrightarrow> 0 < p \<Longrightarrow> p < 16 \<Longrightarrow> percent p 16 = Inr (int (100 * p div 16))"
proof -
  assume d: "16 dvd 100 * p" and b: "0 < p" "p < 16"
  from b have "p = 1 \<or> p = 2 \<or> p = 3 \<or> p = 4 \<or> p = 5 \<or> p = 6 \<or>
      p = 7 \<or> p = 8 \<or> p = 9 \<or> p = 10 \<or> p = 11 \<or> p = 12 \<or> p = 13 \<or>
      p = 14 \<or> p = 15"
    by arith
  with d show ?thesis
    by (elim disjE; hypsubst; ((simp; fail) | simp add: float_ev))
qed

lemma percent_whole_17:
  "17 dvd 100 * p \<Longrightarrow> 0 < p \<Longrightarrow> p < 17 \<Longrightarrow> percent p 17 = Inr (int (100 * p div 17))"
proof -
  assume d: "17 dvd 100 * p" and b: "0 < p" "p < 17"
  from b have "p = 1 \<or> p = 2 \<or> p = 3 \<or> p = 4 \<or> p = 5 \<or> p = 6 \<or>
      p = 7 \<or> p = 8 \<or> p = 9 \<or> p = 10 \<or> p = 11 \<or> p = 12 \<or> p = 13 \<or>
      p = 14 \<or> p = 15 \<or> p = 16"
    by arith
  with d show ?thesis
    by (elim disjE; hypsubst; ((simp; fail) | simp add: float_ev))
qed

lemma percent_whole_18:
  "18 dvd 100 * p \<Longrightarrow> 0 < p \<Longrightarrow> p < 18 \<Longrightarrow> percent p 18 = Inr (int (100 * p div 18))"
proof -
  assume d: "18 dvd 100 * p" and b: "0 < p" "p < 18"
  from b have "p = 1 \<or> p = 2 \<or> p = 3 \<or> p = 4 \<or> p = 5 \<or> p = 6 \<or>
      p = 7 \<or> p = 8 \<or> p = 9 \<or> p = 10 \<or> p = 11 \<or> p = 12 \<or> p = 13 \<or>
      p = 14 \<or> p = 15 \<or> p = 16 \<or> p = 17"
    by arith
  with d show ?thesis
    by (elim disjE; hypsubst; ((simp; fail) | simp add: float_ev))
qed

lemma percent_whole_19:
  "19 dvd 100 * p \<Longrightarrow> 0 < p \<Longrightarrow> p < 19 \<Longrightarrow> percent p 19 = Inr (int (100 * p div 19))"
proof -
  assume d: "19 dvd 100 * p" and b: "0 < p" "p < 19"
  from b have "p = 1 \<or> p = 2 \<or> p = 3 \<or> p = 4 \<or> p = 5 \<or> p = 6 \<or>
      p = 7 \<or> p = 8 \<or> p = 9 \<or> p = 10 \<or> p = 11 \<or> p = 12 \<or> p = 13 \<or>
      p = 14 \<or> p = 15 \<or> p = 16 \<or> p = 17 \<or> p = 18"
    by arith
  with d show ?thesis
    by (elim disjE; hypsubst; ((simp; fail) | simp add: float_ev))
qed

lemma percent_whole_20:
  "20 dvd 100 * p \<Longrightarrow> 0 < p \<Longrightarrow> p < 20 \<Longrightarrow> percent p 20 = Inr (int (100 * p div 20))"
proof -
  assume d: "20 dvd 100 * p" and b: "0 < p" "p < 20"
  from b have "p = 1 \<or> p = 2 \<or> p = 3 \<or> p = 4 \<or> p = 5 \<or> p = 6 \<or>
      p = 7 \<or> p = 8 \<or> p = 9 \<or> p = 10 \<or> p = 11 \<or> p = 12 \<or> p = 13 \<or>
      p = 14 \<or> p = 15 \<or> p = 16 \<or> p = 17 \<or> p = 18 \<or> p = 19"
    by arith
  with d show ?thesis
    by (elim disjE; hypsubst; ((simp; fail) | simp add: float_ev))
qed

lemma percent_whole_21:
  "21 dvd 100 * p \<Longrightarrow> 0 < p \<Longrightarrow> p < 21 \<Longrightarrow> percent p 21 = Inr (int (100 * p div 21))"
proof -
  assume d: "21 dvd 100 * p" and b: "0 < p" "p < 21"
  from b have "p = 1 \<or> p = 2 \<or> p = 3 \<or> p = 4 \<or> p = 5 \<or> p = 6 \<or>
      p = 7 \<or> p = 8 \<or> p = 9 \<or> p = 10 \<or> p = 11 \<or> p = 12 \<or> p = 13 \<or>
      p = 14 \<or> p = 15 \<or> p = 16 \<or> p = 17 \<or> p = 18 \<or> p = 19 \<or> p = 20"
    by arith
  with d show ?thesis
    by (elim disjE; hypsubst; ((simp; fail) | simp add: float_ev))
qed

lemma percent_whole_22:
  "22 dvd 100 * p \<Longrightarrow> 0 < p \<Longrightarrow> p < 22 \<Longrightarrow> percent p 22 = Inr (int (100 * p div 22))"
proof -
  assume d: "22 dvd 100 * p" and b: "0 < p" "p < 22"
  from b have "p = 1 \<or> p = 2 \<or> p = 3 \<or> p = 4 \<or> p = 5 \<or> p = 6 \<or>
      p = 7 \<or> p = 8 \<or> p = 9 \<or> p = 10 \<or> p = 11 \<or> p = 12 \<or> p = 13 \<or>
      p = 14 \<or> p = 15 \<or> p = 16 \<or> p = 17 \<or> p = 18 \<or> p = 19 \<or>
      p = 20 \<or> p = 21"
    by arith
  with d show ?thesis
    by (elim disjE; hypsubst; ((simp; fail) | simp add: float_ev))
qed

lemma percent_whole_23:
  "23 dvd 100 * p \<Longrightarrow> 0 < p \<Longrightarrow> p < 23 \<Longrightarrow> percent p 23 = Inr (int (100 * p div 23))"
proof -
  assume d: "23 dvd 100 * p" and b: "0 < p" "p < 23"
  from b have "p = 1 \<or> p = 2 \<or> p = 3 \<or> p = 4 \<or> p = 5 \<or> p = 6 \<or>
      p = 7 \<or> p = 8 \<or> p = 9 \<or> p = 10 \<or> p = 11 \<or> p = 12 \<or> p = 13 \<or>
      p = 14 \<or> p = 15 \<or> p = 16 \<or> p = 17 \<or> p = 18 \<or> p = 19 \<or>
      p = 20 \<or> p = 21 \<or> p = 22"
    by arith
  with d show ?thesis
    by (elim disjE; hypsubst; ((simp; fail) | simp add: float_ev))
qed

lemma percent_whole_24:
  "24 dvd 100 * p \<Longrightarrow> 0 < p \<Longrightarrow> p < 24 \<Longrightarrow> percent p 24 = Inr (int (100 * p div 24))"
proof -
  assume d: "24 dvd 100 * p" and b: "0 < p" "p < 24"
  from b have "p = 1 \<or> p = 2 \<or> p = 3 \<or> p = 4 \<or> p = 5 \<or> p = 6 \<or>
      p = 7 \<or> p = 8 \<or> p = 9 \<or> p = 10 \<or> p = 11 \<or> p = 12 \<or> p = 13 \<or>
      p = 14 \<or> p = 15 \<or> p = 16 \<or> p = 17 \<or> p = 18 \<or> p = 19 \<or>
      p = 20 \<or> p = 21 \<or> p = 22 \<or> p = 23"
    by arith
  with d show ?thesis
    by (elim disjE; hypsubst; ((simp; fail) | simp add: float_ev))
qed

lemma percent_whole_25:
  "25 dvd 100 * p \<Longrightarrow> 0 < p \<Longrightarrow> p < 25 \<Longrightarrow> percent p 25 = Inr (int (100 * p div 25))"
proof -
  assume d: "25 dvd 100 * p" and b: "0 < p" "p < 25"
  from b have "p = 1 \<or> p = 2 \<or> p = 3 \<or> p = 4 \<or> p = 5 \<or> p = 6 \<or>
      p = 7 \<or> p = 8 \<or> p = 9 \<or> p = 10 \<or> p = 11 \<or> p = 12 \<or> p = 13 \<or>
      p = 14 \<or> p = 15 \<or> p = 16 \<or> p = 17 \<or> p = 18 \<or> p = 19 \<or>
      p = 20 \<or> p = 21 \<or> p = 22 \<or> p = 23 \<or> p = 24"
    by arith
  with d show ?thesis
    by (elim disjE; hypsubst; ((simp; fail) | simp add: float_ev))
qed

lemma percent_whole_26:
  "26 dvd 100 * p \<Longrightarrow> 0 < p \<Longrightarrow> p < 26 \<Longrightarrow> percent p 26 = Inr (int (100 * p div 26))"
proof -
  assume d: "26 dvd 100 * p" and b: "0 < p" "p < 26"
  from b have "p = 1 \<or> p = 2 \<or> p = 3 \<or> p = 4 \<or> p = 5 \<or> p = 6 \<or>
      p = 7 \<or> p = 8 \<or> p = 9 \<or> p = 10 \<or> p = 11 \<or> p = 12 \<or> p = 13 \<or>
      p = 14 \<or> p = 15 \<or> p = 16 \<or> p = 17 \<or> p = 18 \<or> p = 19 \<or>
      p = 20 \<or> p = 21 \<or> p = 22 \<or> p = 23 \<or> p = 24 \<or> p = 25"
    by arith
  with d show ?thesis
    by (elim disjE; hypsubst; ((simp; fail) | simp add: float_ev))
qed

lemma percent_whole_27:
  "27 dvd 100 * p \<Longrightarrow> 0 < p \<Longrightarrow> p < 27 \<Longrightarrow> percent p 27 = Inr (int (100 * p div 27))"
proof -
  assume d: "27 dvd 100 * p" and b: "0 < p" "p < 27"
  from b have "p = 1 \<or> p = 2 \<or> p = 3 \<or> p = 4 \<or> p = 5 \<or> p = 6 \<or>
      p = 7 \<or> p = 8 \<or> p = 9 \<or> p = 10 \<or> p = 11 \<or> p = 12 \<or> p = 13 \<or>
      p = 14 \<or> p = 15 \<or> p = 16 \<or> p = 17 \<or> p = 18 \<or> p = 19 \<or>
      p = 20 \<or> p = 21 \<or> p = 22 \<or> p = 23 \<or> p = 24 \<or> p = 25 \<or> p = 26"
    by arith
  with d show ?thesis
    by (elim disjE; hypsubst; ((simp; fail) | simp add: float_ev))
qed

lemma percent_whole_28:
  "28 dvd 100 * p \<Longrightarrow> 0 < p \<Longrightarrow> p < 28 \<Longrightarrow> percent p 28 = Inr (int (100 * p div 28))"
proof -
  assume d: "28 dvd 100 * p" and b: "0 < p" "p < 28"
  from b have "p = 1 \<or> p = 2 \<or> p = 3 \<or> p = 4 \<or> p = 5 \<or> p = 6 \<or>
      p = 7 \<or> p = 8 \<or> p = 9 \<or> p = 10 \<or> p = 11 \<or> p = 12 \<or> p = 13 \<or>
      p = 14 \<or> p = 15 \<or> p = 16 \<or> p = 17 \<or> p = 18 \<or> p = 19 \<or>
      p = 20 \<or> p = 21 \<or> p = 22 \<or> p = 23 \<or> p = 24 \<or> p = 25 \<or>
      p = 26 \<or> p = 27"
    by arith
  with d show ?thesis
    by (elim disjE; hypsubst; ((simp; fail) | simp add: float_ev))
qed

lemma percent_whole_29:
  "29 dvd 100 * p \<Longrightarrow> 0 < p \<Longrightarrow> p < 29 \<Longrightarrow> percent p 29 = Inr (int (100 * p div 29))"
proof -
  assume d: "29 dvd 100 * p" and b: "0 < p" "p < 29"
  from b have "p = 1 \<or> p = 2 \<or> p = 3 \<or> p = 4 \<or> p = 5 \<or> p = 6 \<or>
      p = 7 \<or> p = 8 \<or> p = 9 \<or> p = 10 \<or> p = 11 \<or> p = 12 \<or> p = 13 \<or>
      p = 14 \<or> p = 15 \<or> p = 16 \<or> p = 17 \<or> p = 18 \<or> p = 19 \<or>
      p = 20 \<or> p = 21 \<or> p = 22 \<or> p = 23 \<or> p = 24 \<or> p = 25 \<or>
      p = 26 \<or> p = 27 \<or> p = 28"
    by arith
  with d show ?thesis
    by (elim disjE; hypsubst; ((simp; fail) | simp add: float_ev))
qed

lemma percent_whole_30:
  "30 dvd 100 * p \<Longrightarrow> 0 < p \<Longrightarrow> p < 30 \<Longrightarrow> percent p 30 = Inr (int (100 * p div 30))"
proof -
  assume d: "30 dvd 100 * p" and b: "0 < p" "p < 30"
  from b have "p = 1 \<or> p = 2 \<or> p = 3 \<or> p = 4 \<or> p = 5 \<or> p = 6 \<or>
      p = 7 \<or> p = 8 \<or> p = 9 \<or> p = 10 \<or> p = 11 \<or> p = 12 \<or> p = 13 \<or>
      p = 14 \<or> p = 15 \<or> p = 16 \<or> p = 17 \<or> p = 18 \<or> p = 19 \<or>
      p = 20 \<or> p = 21 \<or> p = 22 \<or> p = 23 \<or> p = 24 \<or> p = 25 \<or>
      p = 26 \<or> p = 27 \<or> p = 28 \<or> p = 29"
    by arith
  with d show ?thesis
    by (elim disjE; hypsubst; ((simp; fail) | simp add: float_ev))
qed

lemma percent_whole_31:
  "31 dvd 100 * p \<Longrightarrow> 0 < p \<Longrightarrow> p < 31 \<Longrightarrow> percent p 31 = Inr (int (100 * p div 31))"
proof -
  assume d: "31 dvd 100 * p" and b: "0 < p" "p < 31"
  from b have "p = 1 \<or> p = 2 \<or> p = 3 \<or> p = 4 \<or> p = 5 \<or> p = 6 \<or>
      p = 7 \<or> p = 8 \<or> p = 9 \<or> p = 10 \<or> p = 11 \<or> p = 12 \<or> p = 13 \<or>
      p = 14 \<or> p = 15 \<or> p = 16 \<or> p = 17 \<or> p = 18 \<or> p = 19 \<or>
      p = 20 \<or> p = 21 \<or> p = 22 \<or> p = 23 \<or> p = 24 \<or> p = 25 \<or>
      p = 26 \<or> p = 27 \<or> p = 28 \<or> p = 29 \<or> p = 30"
    by arith
  with d show ?thesis
    by (elim disjE; hypsubst; ((simp; fail) | simp add: float_ev))
qed

lemma percent_whole_32:
  "32 dvd 100 * p \<Longrightarrow> 0 < p \<Longrightarrow> p < 32 \<Longrightarrow> percent p 32 = Inr (int (100 * p div 32))"
proof -
  assume d: "32 dvd 100 * p" and b: "0 < p" "p < 32"
  from b have "p = 1 \<or> p = 2 \<or> p = 3 \<or> p = 4 \<or> p = 5 \<or> p = 6 \<or>
      p = 7 \<or> p = 8 \<or> p = 9 \<or> p = 10 \<or> p = 11 \<or> p = 12 \<or> p = 13 \<or>
      p = 14 \<or> p = 15 \<or> p = 16 \<or> p = 17 \<or> p = 18 \<or> p = 19 \<or>
      p = 20 \<or> p = 21 \<or> p = 22 \<or> p = 23 \<or> p = 24 \<or> p = 25 \<or>
      p = 26 \<or> p = 27 \<or> p = 28 \<or> p = 29 \<or> p = 30 \<or> p = 31"
    by arith
  with d show ?thesis
    by (elim disjE; hypsubst; ((simp; fail) | simp add: float_ev))
qed

lemma percent_whole_33:
  "33 dvd 100 * p \<Longrightarrow> 0 < p \<Longrightarrow> p < 33 \<Longrightarrow> percent p 33 = Inr (int (100 * p div 33))"
proof -
  assume d: "33 dvd 100 * p" and b: "0 < p" "p < 33"
  from b have "p = 1 \<or> p = 2 \<or> p = 3 \<or> p = 4 \<or> p = 5 \<or> p = 6 \<or>
      p = 7 \<or> p = 8 \<or> p = 9 \<or> p = 10 \<or> p = 11 \<or> p = 12 \<or> p = 13 \<or>
      p = 14 \<or> p = 15 \<or> p = 16 \<or> p = 17 \<or> p = 18 \<or> p = 19 \<or>
      p = 20 \<or> p = 21 \<or> p = 22 \<or> p = 23 \<or> p = 24 \<or> p = 25 \<or>
      p = 26 \<or> p = 27 \<or> p = 28 \<or> p = 29 \<or> p = 30 \<or> p = 31 \<or> p = 32"
    by arith
  with d show ?thesis
    by (elim disjE; hypsubst; ((simp; fail) | simp add: float_ev))
qed

lemma percent_whole_34:
  "34 dvd 100 * p \<Longrightarrow> 0 < p \<Longrightarrow> p < 34 \<Longrightarrow> percent p 34 = Inr (int (100 * p div 34))"
proof -
  assume d: "34 dvd 100 * p" and b: "0 < p" "p < 34"
  from b have "p = 1 \<or> p = 2 \<or> p = 3 \<or> p = 4 \<or> p = 5 \<or> p = 6 \<or>
      p = 7 \<or> p = 8 \<or> p = 9 \<or> p = 10 \<or> p = 11 \<or> p = 12 \<or> p = 13 \<or>
      p = 14 \<or> p = 15 \<or> p = 16 \<or> p = 17 \<or> p = 18 \<or> p = 19 \<or>
      p = 20 \<or> p = 21 \<or> p = 22 \<or> p = 23 \<or> p = 24 \<or> p = 25 \<or>
      p = 26 \<or> p = 27 \<or> p = 28 \<or> p = 29 \<or> p = 30 \<or> p = 31 \<or>
      p = 32 \<or> p = 33"
    by arith
  with d show ?thesis
    by (elim disjE; hypsubst; ((simp; fail) | simp add: float_ev))
qed

lemma percent_whole_35:
  "35 dvd 100 * p \<Longrightarrow> 0 < p \<Longrightarrow> p < 35 \<Longrightarrow> percent p 35 = Inr (int (100 * p div 35))"
proof -
  assume d: "35 dvd 100 * p" and b: "0 < p" "p < 35"
  from b have "p = 1 \<or> p = 2 \<or> p = 3 \<or> p = 4 \<or> p = 5 \<or> p = 6 \<or>
      p = 7 \<or> p = 8 \<or> p = 9 \<or> p = 10 \<or> p = 11 \<or> p = 12 \<or> p = 13 \<or>
      p = 14 \<or> p = 15 \<or> p = 16 \<or> p = 17 \<or> p = 18 \<or> p = 19 \<or>
      p = 20 \<or> p = 21 \<or> p = 22 \<or> p = 23 \<or> p = 24 \<or> p = 25 \<or>
      p = 26 \<or> p = 27 \<or> p = 28 \<or> p = 29 \<or> p = 30 \<or> p = 31 \<or>
      p = 32 \<or> p = 33 \<or> p = 34"
    by arith
  with d show ?thesis
    by (elim disjE; hypsubst; ((simp; fail) | simp add: float_ev))
qed

lemma percent_whole_36:
  "36 dvd 100 * p \<Longrightarrow> 0 < p \<Longrightarrow> p < 36 \<Longrightarrow> percent p 36 = Inr (int (100 * p div 36))"
proof -
  assume d: "36 dvd 100 * p" and b: "0 < p" "p < 36"
  from b have "p = 1 \<or> p = 2 \<or> p = 3 \<or> p = 4 \<or> p = 5 \<or> p = 6 \<or>
      p = 7 \<or> p = 8 \<or> p = 9 \<or> p = 10 \<or> p = 11 \<or> p = 12 \<or> p = 13 \<or>
      p = 14 \<or> p = 15 \<or> p = 16 \<or> p = 17 \<or> p = 18 \<or> p = 19 \<or>
      p = 20 \<or> p = 21 \<or> p = 22 \<or> p = 23 \<or> p = 24 \<or> p = 25 \<or>
      p = 26 \<or> p = 27 \<or> p = 28 \<or> p = 29 \<or> p = 30 \<or> p = 31 \<or>
      p = 32 \<or> p = 33 \<or> p = 34 \<or> p = 35"
    by arith
  with d show ?thesis
    by (elim disjE; hypsubst; ((simp; fail) | simp add: float_ev))
qed

lemma percent_whole_37:
  "37 dvd 100 * p \<Longrightarrow> 0 < p \<Longrightarrow> p < 37 \<Longrightarrow> percent p 37 = Inr (int (100 * p div 37))"
proof -
  assume d: "37 dvd 100 * p" and b: "0 < p" "p < 37"
  from b have "p = 1 \<or> p = 2 \<or> p = 3 \<or> p = 4 \<or> p = 5 \<or> p = 6 \<or>
      p = 7 \<or> p = 8 \<or> p = 9 \<or> p = 10 \<or> p = 11 \<or> p = 12 \<or> p = 13 \<or>
      p = 14 \<or> p = 15 \<or> p = 16 \<or> p = 17 \<or> p = 18 \<or> p = 19 \<or>
      p = 20 \<or> p = 21 \<or> p = 22 \<or> p = 23 \<or> p = 24 \<or> p = 25 \<or>
      p = 26 \<or> p = 27 \<or> p = 28 \<or> p = 29 \<or> p = 30 \<or> p = 31 \<or>
      p = 32 \<or> p = 33 \<or> p = 34 \<or> p = 35 \<or> p = 36"
    by arith
  with d show ?thesis
    by (elim disjE; hypsubst; ((simp; fail) | simp add: float_ev))
qed

lemma percent_whole_38:
  "38 dvd 100 * p \<Longrightarrow> 0 < p \<Longrightarrow> p < 38 \<Longrightarrow> percent p 38 = Inr (int (100 * p div 38))"
proof -
  assume d: "38 dvd 100 * p" and b: "0 < p" "p < 38"
  from b have "p = 1 \<or> p = 2 \<or> p = 3 \<or> p = 4 \<or> p = 5 \<or> p = 6 \<or>
      p = 7 \<or> p = 8 \<or> p = 9 \<or> p = 10 \<or> p = 11 \<or> p = 12 \<or> p = 13 \<or>
      p = 14 \<or> p = 15 \<or> p = 16 \<or> p = 17 \<or> p = 18 \<or> p = 19 \<or>
      p = 20 \<or> p = 21 \<or> p = 22 \<or> p = 23 \<or> p = 24 \<or> p = 25 \<or>
      p = 26 \<or> p = 27 \<or> p = 28 \<or> p = 29 \<or> p = 30 \<or> p = 31 \<or>
      p = 32 \<or> p = 33 \<or> p = 34 \<or> p = 35 \<or> p = 36 \<or> p = 37"
    by arith
  with d show ?thesis
    by (elim disjE; hypsubst; ((simp; fail) | simp add: float_ev))
qed

lemma percent_whole_39:
  "39 dvd 100 * p \<Longrightarrow> 0 < p \<Longrightarrow> p < 39 \<Longrightarrow> percent p 39 = Inr (int (100 * p div 39))"
proof -
  assume d: "39 dvd 100 * p" and b: "0 < p" "p < 39"
  from b have "p = 1 \<or> p = 2 \<or> p = 3 \<or> p = 4 \<or> p = 5 \<or> p = 6 \<or>
      p = 7 \<or> p = 8 \<or> p = 9 \<or> p = 10 \<or> p = 11 \<or> p = 12 \<or> p = 13 \<or>
      p = 14 \<or> p = 15 \<or> p = 16 \<or> p = 17 \<or> p = 18 \<or> p = 19 \<or>
      p = 20 \<or> p = 21 \<or> p = 22 \<or> p = 23 \<or> p = 24 \<or> p = 25 \<or>
      p = 26 \<or> p = 27 \<or> p = 28 \<or> p = 29 \<or> p = 30 \<or> p = 31 \<or>
      p = 32 \<or> p = 33 \<or> p = 34 \<or> p = 35 \<or> p = 36 \<or> p = 37 \<or> p = 38"
    by arith
  with d show ?thesis
    by (elim disjE; hypsubst; ((simp; fail) | simp add: float_ev))
qed

lemma percent_whole_40:
  "40 dvd 100 * p \<Longrightarrow> 0 < p \<Longrightarrow> p < 40 \<Longrightarrow> percent p 40 = Inr (int (100 * p div 40))"
proof -
  assume d: "40 dvd 100 * p" and b: "0 < p" "p < 40"
  from b have "p = 1 \<or> p = 2 \<or> p = 3 \<or> p = 4 \<or> p = 5 \<or> p = 6 \<or>
      p = 7 \<or> p = 8 \<or> p = 9 \<or> p = 10 \<or> p = 11 \<or> p = 12 \<or> p = 13 \<or>
      p = 14 \<or> p = 15 \<or> p = 16 \<or> p = 17 \<or> p = 18 \<or> p = 19 \<or>
      p = 20 \<or> p = 21 \<or> p = 22 \<or> p = 23 \<or> p = 24 \<or> p = 25 \<or>
      p = 26 \<or> p = 27 \<or> p = 28 \<or> p = 29 \<or> p = 30 \<or> p = 31 \<or>
      p = 32 \<or> p = 33 \<or> p = 34 \<or> p = 35 \<or> p = 36 \<or> p = 37 \<or>
      p = 38 \<or> p = 39"
    by arith
  with d show ?thesis
    by (elim disjE; hypsubst; ((simp; fail) | simp add: float_ev))
qed

lemma percent_whole_41:
  "41 dvd 100 * p \<Longrightarrow> 0 < p \<Longrightarrow> p < 41 \<Longrightarrow> percent p 41 = Inr (int (100 * p div 41))"
proof -
  assume d: "41 dvd 100 * p" and b: "0 < p" "p < 41"
  from b have "p = 1 \<or> p = 2 \<or> p = 3 \<or> p = 4 \<or> p = 5 \<or> p = 6 \<or>
      p = 7 \<or> p = 8 \<or> p = 9 \<or> p = 10 \<or> p = 11 \<or> p = 12 \<or> p = 13 \<or>
      p = 14 \<or> p = 15 \<or> p = 16 \<or> p = 17 \<or> p = 18 \<or> p = 19 \<or>
      p = 20 \<or> p = 21 \<or> p = 22 \<or> p = 23 \<or> p = 24 \<or> p = 25 \<or>
      p = 26 \<or> p = 27 \<or> p = 28 \<or> p = 29 \<or> p = 30 \<or> p = 31 \<or>
      p = 32 \<or> p = 33 \<or> p = 34 \<or> p = 35 \<or> p = 36 \<or> p = 37 \<or>
      p = 38 \<or> p = 39 \<or> p = 40"
    by arith
  with d show ?thesis
    by (elim disjE; hypsubst; ((simp; fail) | simp add: float_ev))
qed

lemma percent_whole_42:
  "42 dvd 100 * p \<Longrightarrow> 0 < p \<Longrightarrow> p < 42 \<Longrightarrow> percent p 42 = Inr (int (100 * p div 42))"
proof -
  assume d: "42 dvd 100 * p" and b: "0 < p" "p < 42"
  from b have "p = 1 \<or> p = 2 \<or> p = 3 \<or> p = 4 \<or> p = 5 \<or> p = 6 \<or>
      p = 7 \<or> p = 8 \<or> p = 9 \<or> p = 10 \<or> p = 11 \<or> p = 12 \<or> p = 13 \<or>
      p = 14 \<or> p = 15 \<or> p = 16 \<or> p = 17 \<or> p = 18 \<or> p = 19 \<or>
      p = 20 \<or> p = 21 \<or> p = 22 \<or> p = 23 \<or> p = 24 \<or> p = 25 \<or>
      p = 26 \<or> p = 27 \<or> p = 28 \<or> p = 29 \<or> p = 30 \<or> p = 31 \<or>
      p = 32 \<or> p = 33 \<or> p = 34 \<or> p = 35 \<or> p = 36 \<or> p = 37 \<or>
      p = 38 \<or> p = 39 \<or> p = 40 \<or> p = 41"
    by arith
  with d show ?thesis
    by (elim disjE; hypsubst; ((simp; fail) | simp add: float_ev))
qed

lemma percent_whole_43:
  "43 dvd 100 * p \<Longrightarrow> 0 < p \<Longrightarrow> p < 43 \<Longrightarrow> percent p 43 = Inr (int (100 * p div 43))"
proof -
  assume d: "43 dvd 100 * p" and b: "0 < p" "p < 43"
  from b have "p = 1 \<or> p = 2 \<or> p = 3 \<or> p = 4 \<or> p = 5 \<or> p = 6 \<or>
      p = 7 \<or> p = 8 \<or> p = 9 \<or> p = 10 \<or> p = 11 \<or> p = 12 \<or> p = 13 \<or>
      p = 14 \<or> p = 15 \<or> p = 16 \<or> p = 17 \<or> p = 18 \<or> p = 19 \<or>
      p = 20 \<or> p = 21 \<or> p = 22 \<or> p = 23 \<or> p = 24 \<or> p = 25 \<or>
      p = 26 \<or> p = 27 \<or> p = 28 \<or> p = 29 \<or> p = 30 \<or> p = 31 \<or>
      p = 32 \<or> p = 33 \<or> p = 34 \<or> p = 35 \<or> p = 36 \<or> p = 37 \<or>
      p = 38 \<or> p = 39 \<or> p = 40 \<or> p = 41 \<or> p = 42"
    by arith
  with d show ?thesis
    by (elim disjE; hypsubst; ((simp; fail) | simp add: float_ev))
qed

lemma percent_whole_44:
  "44 dvd 100 * p \<Longrightarrow> 0 < p \<Longrightarrow> p < 44 \<Longrightarrow> percent p 44 = Inr (int (100 * p div 44))"
proof -
  assume d: "44 dvd 100 * p" and b: "0 < p" "p < 44"
  from b have "p = 1 \<or> p = 2 \<or> p = 3 \<or> p = 4 \<or> p = 5 \<or> p = 6 \<or>
      p = 7 \<or> p = 8 \<or> p = 9 \<or> p = 10 \<or> p = 11 \<or> p = 12 \<or> p = 13 \<or>
      p = 14 \<or> p = 15 \<or> p = 16 \<or> p = 17 \<or> p = 18 \<or> p = 19 \<or>
      p = 20 \<or> p = 21 \<or> p = 22 \<or> p = 23 \<or> p = 24 \<or> p = 25 \<or>
      p = 26 \<or> p = 27 \<or> p = 28 \<or> p = 29 \<or> p = 30 \<or> p = 31 \<or>
      p = 32 \<or> p = 33 \<or> p = 34 \<or> p = 35 \<or> p = 36 \<or> p = 37 \<or>
      p = 38 \<or> p = 39 \<or> p = 40 \<or> p = 41 \<or> p = 42 \<or> p = 43"
    by arith
  with d show ?thesis
    by (elim disjE; hypsubst; ((simp; fail) | simp add: float_ev))
qed

lemma percent_whole_45:
  "45 dvd 100 * p \<Longrightarrow> 0 < p \<Longrightarrow> p < 45 \<Longrightarrow> percent p 45 = Inr (int (100 * p div 45))"
proof -
  assume d: "45 dvd 100 * p" and b: "0 < p" "p < 45"
  from b have "p = 1 \<or> p = 2 \<or> p = 3 \<or> p = 4 \<or> p = 5 \<or> p = 6 \<or>
      p = 7 \<or> p = 8 \<or> p = 9 \<or> p = 10 \<or> p = 11 \<or> p = 12 \<or> p = 13 \<or>
      p = 14 \<or> p = 15 \<or> p = 16 \<or> p = 17 \<or> p = 18 \<or> p = 19 \<or>
      p = 20 \<or> p = 21 \<or> p = 22 \<or> p = 23 \<or> p = 24 \<or> p = 25 \<or>
      p = 26 \<or> p = 27 \<or> p = 28 \<or> p = 29 \<or> p = 30 \<or> p = 31 \<or>
      p = 32 \<or> p = 33 \<or> p = 34 \<or> p = 35 \<or> p = 36 \<or> p = 37 \<or>
      p = 38 \<or> p = 39 \<or> p = 40 \<or> p = 41 \<or> p = 42 \<or> p = 43 \<or> p = 44"
    by arith
  with d show ?thesis
    by (elim disjE; hypsubst; ((simp; fail) | simp add: float_ev))
qed

lemma percent_whole_46:
  "46 dvd 100 * p \<Longrightarrow> 0 < p \<Longrightarrow> p < 46 \<Longrightarrow> percent p 46 = Inr (int (100 * p div 46))"
proof -
  assume d: "46 dvd 100 * p" and b: "0 < p" "p < 46"
  from b have "p = 1 \<or> p = 2 \<or> p = 3 \<or> p = 4 \<or> p = 5 \<or> p = 6 \<or>
      p = 7 \<or> p = 8 \<or> p = 9 \<or> p = 10 \<or> p = 11 \<or> p = 12 \<or> p = 13 \<or>
      p = 14 \<or> p = 15 \<or> p = 16 \<or> p = 17 \<or> p = 18 \<or> p = 19 \<or>
      p = 20 \<or> p = 21 \<or> p = 22 \<or> p = 23 \<or> p = 24 \<or> p = 25 \<or>
      p = 26 \<or> p = 27 \<or> p = 28 \<or> p = 29 \<or> p = 30 \<or> p = 31 \<or>
      p = 32 \<or> p = 33 \<or> p = 34 \<or> p = 35 \<or> p = 36 \<or> p = 37 \<or>
      p = 38 \<or> p = 39 \<or> p = 40 \<or> p = 41 \<or> p = 42 \<or> p = 43 \<or>
      p = 44 \<or> p = 45"
    by arith
  with d show ?thesis
    by (elim disjE; hypsubst; ((simp; fail) | simp add: float_ev))
qed

lemma percent_whole_47:
  "47 dvd 100 * p \<Longrightarrow> 0 < p \<Longrightarrow> p < 47 \<Longrightarrow> percent p 47 = Inr (int (100 * p div 47))"
proof -
  assume d: "47 dvd 100 * p" and b: "0 < p" "p < 47"
  from b have "p = 1 \<or> p = 2 \<or> p = 3 \<or> p = 4 \<or> p = 5 \<or> p = 6 \<or>
      p = 7 \<or> p = 8 \<or> p = 9 \<or> p = 10 \<or> p = 11 \<or> p = 12 \<or> p = 13 \<or>
      p = 14 \<or> p = 15 \<or> p = 16 \<or> p = 17 \<or> p = 18 \<or> p = 19 \<or>
      p = 20 \<or> p = 21 \<or> p = 22 \<or> p = 23 \<or> p = 24 \<or> p = 25 \<or>
      p = 26 \<or> p = 27 \<or> p = 28 \<or> p = 29 \<or> p = 30 \<or> p = 31 \<or>
      p = 32 \<or> p = 33 \<or> p = 34 \<or> p = 35 \<or> p = 36 \<or> p = 37 \<or>
      p = 38 \<or> p = 39 \<or> p = 40 \<or> p = 41 \<or> p = 42 \<or> p = 43 \<or>
      p = 44 \<or> p = 45 \<or> p = 46"
    by arith
  with d show ?thesis
    by (elim disjE; hypsubst; ((simp; fail) | simp add: float_ev))
qed

lemma percent_whole_48:
  "48 dvd 100 * p \<Longrightarrow> 0 < p \<Longrightarrow> p < 48 \<Longrightarrow> percent p 48 = Inr (int (100 * p div 48))"
proof -
  assume d: "48 dvd 100 * p" and b: "0 < p" "p < 48"
  from b have "p = 1 \<or> p = 2 \<or> p = 3 \<or> p = 4 \<or> p = 5 \<or> p = 6 \<or>
      p = 7 \<or> p = 8 \<or> p = 9 \<or> p = 10 \<or> p = 11 \<or> p = 12 \<or> p = 13 \<or>
      p = 14 \<or> p = 15 \<or> p = 16 \<or> p = 17 \<or> p = 18 \<or> p = 19 \<or>
      p = 20 \<or> p = 21 \<or> p = 22 \<or> p = 23 \<or> p = 24 \<or> p = 25 \<or>
      p = 26 \<or> p = 27 \<or> p = 28 \<or> p = 29 \<or> p = 30 \<or> p = 31 \<or>
      p = 32 \<or> p = 33 \<or> p = 34 \<or> p = 35 \<or> p = 36 \<or> p = 37 \<or>
      p = 38 \<or> p = 39 \<or> p = 40 \<or> p = 41 \<or> p = 42 \<or> p = 43 \<or>
      p = 44 \<or> p = 45 \<or> p = 46 \<or> p = 47"
    by arith
  with d show ?thesis
    by (elim disjE; hypsubst; ((simp; fail) | simp add: float_ev))
qed

lemma percent_whole_49:
  "49 dvd 100 * p \<Longrightarrow> 0 < p \<Longrightarrow> p < 49 \<Longrightarrow> percent p 49 = Inr (int (100 * p div 49))"
proof -
  assume d: "49 dvd 100 * p" and b: "0 < p" "p < 49"
  from b have "p = 1 \<or> p = 2 \<or> p = 3 \<or> p = 4 \<or> p = 5 \<or> p = 6 \<or>
      p = 7 \<or> p = 8 \<or> p = 9 \<or> p = 10 \<or> p = 11 \<or> p = 12 \<or> p = 13 \<or>
      p = 14 \<or> p = 15 \<or> p = 16 \<or> p = 17 \<or> p = 18 \<or> p = 19 \<or>
      p = 20 \<or> p = 21 \<or> p = 22 \<or> p = 23 \<or> p = 24 \<or> p = 25 \<or>
      p = 26 \<or> p = 27 \<or> p = 28 \<or> p = 29 \<or> p = 30 \<or> p = 31 \<or>
      p = 32 \<or> p = 33 \<or> p = 34 \<or> p = 35 \<or> p = 36 \<or> p = 37 \<or>
      p = 38 \<or> p = 39 \<or> p = 40 \<or> p = 41 \<or> p = 42 \<or> p = 43 \<or>
      p = 44 \<or> p = 45 \<or> p = 46 \<or> p = 47 \<or> p = 48"
    by arith
  with d show ?thesis
    by (elim disjE; hypsubst; ((simp; fail) | simp add: float_ev))
qed

lemma percent_whole_small:
  assumes "t dvd 100 * p" and "0 < p" and "p < t" and "t < 50"
  shows "percent p t = Inr (int (100 * p div t))"
proof -
  from assms(2-4) have "t = 1 \<or> t = 2 \<or> t = 3 \<or> t = 4 \<or> t = 5 \<or>
      t = 6 \<or> t = 7 \<or> t = 8 \<or> t = 9 \<or> t = 10 \<or> t = 11 \<or> t = 12 \<or>
      t = 13 \<or> t = 14 \<or> t = 15 \<or> t = 16 \<or> t = 17 \<or> t = 18 \<or>
      t = 19 \<or> t = 20 \<or> t = 21 \<or> t = 22 \<or> t = 23 \<or> t = 24 \<or>
      t = 25 \<or> t = 26 \<or> t = 27 \<or> t = 28 \<or> t = 29 \<or> t = 30 \<or>
      t = 31 \<or> t = 32 \<or> t = 33 \<or> t = 34 \<or> t = 35 \<or> t = 36 \<or>
      t = 37 \<or> t = 38 \<or> t = 39 \<or> t = 40 \<or> t = 41 \<or> t = 42 \<or>
      t = 43 \<or> t = 44 \<or> t = 45 \<or> t = 46 \<or> t = 47 \<or> t = 48 \<or> t = 49"
    by arith
  with assms(1-3) show ?thesis
    apply (elim disjE; hypsubst)
    apply (rule
      percent_whole_1 percent_whole_2 percent_whole_3 percent_whole_4 percent_whole_5
      percent_whole_6 percent_whole_7 percent_whole_8 percent_whole_9 percent_whole_10
      percent_whole_11 percent_whole_12 percent_whole_13 percent_whole_14 percent_whole_15
      percent_whole_16 percent_whole_17 percent_whole_18 percent_whole_19 percent_whole_20
      percent_whole_21 percent_whole_22 percent_whole_23 percent_whole_24 percent_whole_25
      percent_whole_26 percent_whole_27 percent_whole_28 percent_whole_29 percent_whole_30
      percent_whole_31 percent_whole_32 percent_whole_33 percent_whole_34 percent_whole_35
      percent_whole_36 percent_whole_37 percent_whole_38 percent_whole_39 percent_whole_40
      percent_whole_41 percent_whole_42 percent_whole_43 percent_whole_44 percent_whole_45
      percent_whole_46 percent_whole_47 percent_whole_48 percent_whole_49; assumption)+
    done
qed

lemma percent_small:
  assumes "0 < t" and "p \<le> t" and "t < 50"
  shows "percent p t = Inr (int (100 * p div t))"
proof (cases "t dvd 100 * p")
  case False
  from assms(3) have "t \<le> 2 ^ 44"
    by simp
  with assms(1,2) False show ?thesis
    by (intro percent_floor)
next
  case True
  consider "p = 0" | "p = t" | "0 < p" "p < t"
    using assms(2) by arith
  then show ?thesis
  proof cases
    case 1
    with assms(1) show ?thesis
      by (simp add: percent_none)
  next
    case 2
    with assms(1) show ?thesis
      by (simp add: percent_all)
  next
    case 3
    with True assms(3) show ?thesis
      by (intro percent_whole_small)
  qed
qed

text \<open>
  With fifty checks or more a whole percentage can come out one too low, 29 of 50 as 57,
  but never by more than one.
\<close>

lemma percent_29_of_50: "percent 29 50 = Inr 57"
  by (simp add: float_ev)

lemma percent_near:
  assumes t: "0 < t" and pt: "p \<le> t" and small: "t \<le> 2 ^ 44"
  shows "\<exists>s. percent p t = Inr s \<and> int (100 * p div t) - 1 \<le> s \<and> s \<le> int (100 * p div t)"
proof -
  define q where "q = real p / real t"
  define x where "x = round_frac p t"
  define y where "y = mul_nat x 100"
  define k where "k = 100 * p div t"
  define r where "r = 100 * p mod t"
  have tpos: "0 < real t" using t by simp
  have q01: "0 \<le> q" "q \<le> 1"
    using t pt by (simp_all add: q_def)
  define u :: real where "u = 1 / 2 ^ 53"
  have ex: "\<bar>val x - q\<bar> \<le> q / 2 ^ 53"
    unfolding x_def q_def by (rule round_frac_error [OF t])
  have ey: "\<bar>val y - val x * 100\<bar> \<le> val x * 100 / 2 ^ 53"
    unfolding y_def using mul_nat_error [of x 100] by simp
  have qu: "q / 2 ^ 53 \<le> u"
    unfolding u_def using q01 by (intro divide_right_mono) simp_all
  have u1: "u \<le> 1"
    by (simp add: u_def)
  have "\<bar>val x - q\<bar> \<le> u"
    using ex qu by (rule order_trans)
  then have xl: "q - u \<le> val x" and xh: "val x \<le> q + u"
    by linarith+
  have x2: "val x \<le> 2"
    using xh u1 q01 by linarith
  have xu: "val x * 100 / 2 ^ 53 \<le> 200 * u"
    unfolding u_def using x2 by simp
  have "\<bar>val y - val x * 100\<bar> \<le> 200 * u"
    using ey xu by (rule order_trans)
  then have yl: "val x * 100 - 200 * u \<le> val y" and yh: "val y \<le> val x * 100 + 200 * u"
    by linarith+
  have errl: "100 * q - 300 * u \<le> val y" and errh: "val y \<le> 100 * q + 300 * u"
    using xl xh yl yh by linarith+
  have usmall: "300 * u < 1 / 2 ^ 44" "1 / 2 ^ 44 \<le> (1::real)"
    by (simp_all add: u_def)
  have r: "r < t"
    using t by (simp add: r_def)
  have "100 * p = k * t + r"
    by (simp add: k_def r_def)
  then have "100 * real p = real k * real t + real r"
    by (metis of_nat_add of_nat_mult of_nat_numeral)
  then have q100: "100 * q = real k + real r / real t"
    using tpos by (simp add: q_def field_simps)
  have "real t \<le> 2 ^ 44"
    using small by (metis of_nat_le_iff of_nat_numeral of_nat_power)
  then have inv: "1 / 2 ^ 44 \<le> 1 / real t"
    using tpos by (intro divide_left_mono) simp_all
  have "0 \<le> real r" "real r \<le> real t - 1"
    using r by linarith+
  then have "0 \<le> real r / real t" "real r / real t \<le> 1 - 1 / real t"
    using tpos by (simp_all add: field_simps)
  with inv have rb: "0 \<le> real r / real t" "real r / real t \<le> 1 - 1 / 2 ^ 44"
    by linarith+
  have "real k - 1 < val y" "val y < real k + 1"
    using errl errh usmall q100 rb by linarith+
  then have "real_of_int (int k - 1) \<le> val y" "val y < real_of_int (int k + 1)"
    by simp_all
  then have "int k - 1 \<le> \<lfloor>val y\<rfloor>" "\<lfloor>val y\<rfloor> < int k + 1"
    by (simp_all only: le_floor_iff floor_less_iff)
  then show ?thesis
    using t by (simp add: percent_def truediv_def py_int_floor x_def y_def k_def)
qed

text \<open>
  The program reports on at most 25 checks, eight of security, six of SEO, four or five
  of performance, four of compliance and the two probes, so its score is always the
  percentage rounded down.
\<close>

lemma length_setitem:
  "length d \<le> length (setitem k v d) \<and> length (setitem k v d) \<le> length d + 1"
  by (induction d) auto

lemma length_update:
  "length d \<le> length (update d other) \<and> length (update d other) \<le> length d + length other"
  unfolding update_def
proof (induction other arbitrary: d)
  case Nil
  then show ?case by simp
next
  case (Cons p other)
  obtain k v where p: "p = (k, v)" by (cases p)
  show ?case
    using Cons [of "setitem k v d"] length_setitem [of d k v] by (simp add: p)
qed

lemma run_checks_length:
  assumes "run_checks fetch_url domain base_url load_time html resp_headers = Inr r"
  shows "r \<noteq> [] \<and> length r \<le> 25"
proof -
  obtain sec where sec: "check_security base_url html resp_headers = Inr sec" "length sec = 8"
    using check_security_keys [of base_url html resp_headers] by (auto dest: arg_cong [of _ _ length])
  obtain seo where seo: "check_seo html base_url = Inr seo" "length seo = 6"
    using check_seo_keys [of html base_url] by (auto dest: arg_cong [of _ _ length])
  obtain perf where perf: "check_performance load_time html = Inr perf" "length perf \<le> 5"
    using check_performance_keys [of load_time html]
    by (auto dest: arg_cong [of _ _ length] split: if_splits)
  obtain compl where compl: "check_compliance html base_url = Inr compl" "length compl = 4"
    using check_compliance_keys [of html base_url] by (auto dest: arg_cong [of _ _ length])
  have infra: "length (check_infra fetch_url domain base_url) = 2"
    by (simp add: check_infra_eq)
  have r: "r = update (update (update (update (update [] sec) seo) perf) compl)
                 (check_infra fetch_url domain base_url)"
    using assms by (simp add: run_checks_def sec seo perf compl)
  have "check_infra fetch_url domain base_url \<noteq> []"
    using infra by auto
  then have "set (map fst r) \<noteq> {}"
    unfolding r keys_update by simp
  then have ne: "r \<noteq> []"
    by auto
  have "length r \<le> length ([] :: check pydict) + length sec + length seo + length perf
      + length compl + length (check_infra fetch_url domain base_url)"
    unfolding r
    using length_update [of "[]" sec] length_update [of "update [] sec" seo]
      length_update [of "update (update [] sec) seo" perf]
      length_update [of "update (update (update [] sec) seo) perf" compl]
      length_update [of "update (update (update (update [] sec) seo) perf) compl"
        "check_infra fetch_url domain base_url"]
    by linarith
  then have "length r \<le> 25"
    using sec(2) seo(2) perf(2) compl(2) infra by simp
  with ne show ?thesis
    by simp
qed

lemma main_score:
  assumes "scan argv fetch_url elapsed = Done (domain, all_checks, load_time)"
  shows "\<exists>rep. main argv fetch_url elapsed = Done rep
     \<and> score rep
         = int (100 * length (filter (\<lambda>(k, v). pass v) all_checks) div length all_checks)"
proof -
  let ?p = "length (filter (\<lambda>(k, v). pass v) all_checks)"
  let ?t = "length all_checks"
  from assms obtain base_url html resp_headers where
    "run_checks fetch_url domain base_url load_time html resp_headers = Inr all_checks"
    by (auto simp: scan_def Let_def split: if_splits sum.splits)
  then have "all_checks \<noteq> []" "?t \<le> 25"
    using run_checks_length by blast+
  then have t: "0 < ?t" "?t < 50"
    by simp_all
  have pt: "?p \<le> ?t"
    by (rule length_filter_le)
  have sc: "percent ?p ?t = Inr (int (100 * ?p div ?t))"
    using t pt by (intro percent_small)
  obtain cs where cs: "cat_scores_loop all_checks categories [] = Inr cs"
    using cat_scores_loop_total by blast
  show ?thesis
    by (simp add: main_def assms print_report_def sc cs Let_def)
qed

lemma report_two_of_three:
  "print_report (cps ''a.io'')
     [(cps ''HSTS'', \<lparr>pass = True, impact = cps ''high'', category = cps ''security'',
                       detail = None\<rparr>),
      (cps ''CSP'', \<lparr>pass = True, impact = cps ''high'', category = cps ''security'',
                      detail = None\<rparr>),
      (cps ''X-Frame-Options'', \<lparr>pass = False, impact = cps ''medium'',
                                  category = cps ''security'', detail = None\<rparr>)] 150
   = Inr \<lparr>score = 66, cat_scores = [(cps ''security'', 66)], verdict = verdict_good,
          issues = [(cps ''security'',
                      [(cps ''X-Frame-Options'', \<lparr>pass = False, impact = cps ''medium'',
                          category = cps ''security'', detail = None\<rparr>)])],
          passing = [(cps ''security'', [cps ''HSTS'', cps ''CSP''])]\<rparr>"
proof -
  define X where "X = [(cps ''HSTS'', \<lparr>pass = True, impact = cps ''high'', category = cps ''security'',
                       detail = None\<rparr>),
      (cps ''CSP'', \<lparr>pass = True, impact = cps ''high'', category = cps ''security'',
                      detail = None\<rparr>),
      (cps ''X-Frame-Options'', \<lparr>pass = False, impact = cps ''medium'',
                                  category = cps ''security'', detail = None\<rparr>)]"
  have f: "filter (\<lambda>(k, v). pass v) X = take 2 X" "filter (\<lambda>(k, v). \<not> pass v) X = drop 2 X"
    "length X = 3" "length (take 2 X) = 2"
    by (simp_all add: X_def)
  have pc: "percent 2 3 = Inr 66"
    by (simp add: float_ev)
  have pcs: "percent (Suc (Suc 0)) (Suc (Suc (Suc 0))) = Inr 66"
    by (simp add: float_ev flip: numeral_2_eq_2 numeral_3_eq_3)
  have cs: "cat_scores_loop X categories [] = Inr [(cps ''security'', 66)]"
    by (simp add: X_def pcs categories_def cps_def)
  have iss: "issues_of (drop 2 X) = issues \<lparr>score = 66, cat_scores = [(cps ''security'', 66)], verdict = verdict_good,
          issues = [(cps ''security'',
                      [(cps ''X-Frame-Options'', \<lparr>pass = False, impact = cps ''medium'',
                          category = cps ''security'', detail = None\<rparr>)])],
          passing = [(cps ''security'', [cps ''HSTS'', cps ''CSP''])]\<rparr>"
    by (simp add: X_def issues_of_def failed_of_def categories_def impact_order_def cps_def)
  have pas: "passing_of (take 2 X) = [(cps ''security'', [cps ''HSTS'', cps ''CSP''])]"
    by (simp add: X_def passing_of_def categories_def cps_def)
  have "print_report (cps ''a.io'') X 150 = Inr \<lparr>score = 66, cat_scores = [(cps ''security'', 66)], verdict = verdict_good,
          issues = [(cps ''security'',
                      [(cps ''X-Frame-Options'', \<lparr>pass = False, impact = cps ''medium'',
                          category = cps ''security'', detail = None\<rparr>)])],
          passing = [(cps ''security'', [cps ''HSTS'', cps ''CSP''])]\<rparr>"
    by (simp add: print_report_def f pc cs iss pas verdict_of_def)
  then show ?thesis
    unfolding X_def .
qed

text \<open>
  C1, as the specification words it. With two checks passed out of three the score is 66;
  100 * 2 / 3 rounded to the nearest integer is 67.
\<close>

theorem score_counterexample:
  "print_report (cps ''a.io'')
     [(cps ''HSTS'', \<lparr>pass = True, impact = cps ''high'', category = cps ''security'',
                       detail = None\<rparr>),
      (cps ''CSP'', \<lparr>pass = True, impact = cps ''high'', category = cps ''security'',
                      detail = None\<rparr>),
      (cps ''X-Frame-Options'', \<lparr>pass = False, impact = cps ''medium'',
                                  category = cps ''security'', detail = None\<rparr>)] 150
   = Inr \<lparr>score = 66, cat_scores = [(cps ''security'', 66)], verdict = verdict_good,
          issues = [(cps ''security'',
                      [(cps ''X-Frame-Options'', \<lparr>pass = False, impact = cps ''medium'',
                          category = cps ''security'', detail = None\<rparr>)])],
          passing = [(cps ''security'', [cps ''HSTS'', cps ''CSP''])]\<rparr>
   \<and> round (100 * 2 / 3 :: real) = 67"
  using report_two_of_three by (simp add: round_def)

text \<open>
  C1, as the code has it. For every non-empty collection of checks (of at most \<open>2 ^ 44\<close>,
  far more than a dictionary can hold) the reporter computes a score, the value of
  \<open>int((passed / total) * 100)\<close> in double precision. With fewer than fifty checks, and
  with any number of them when the percentage of passed checks is not a whole number, the
  score is that percentage rounded down, not to the nearest. In every case it is the
  percentage rounded down or one less. It is 100 when every check passes and 0 when
  every check fails.
\<close>

theorem overall_score:
  assumes "all_checks \<noteq> []" and "length all_checks \<le> 2 ^ 44"
  shows "\<exists>rep. print_report domain all_checks load_time = Inr rep
     \<and> percent (length (filter (\<lambda>(k, v). pass v) all_checks)) (length all_checks)
         = Inr (score rep)
     \<and> (length all_checks < 50
          \<or> \<not> length all_checks dvd 100 * length (filter (\<lambda>(k, v). pass v) all_checks) \<longrightarrow>
          score rep
            = int (100 * length (filter (\<lambda>(k, v). pass v) all_checks) div length all_checks))
     \<and> int (100 * length (filter (\<lambda>(k, v). pass v) all_checks) div length all_checks) - 1
         \<le> score rep
     \<and> score rep
         \<le> int (100 * length (filter (\<lambda>(k, v). pass v) all_checks) div length all_checks)
     \<and> ((\<forall>(k, v) \<in> set all_checks. pass v) \<longrightarrow> score rep = 100)
     \<and> ((\<forall>(k, v) \<in> set all_checks. \<not> pass v) \<longrightarrow> score rep = 0)"
proof -
  let ?p = "length (filter (\<lambda>(k, v). pass v) all_checks)"
  let ?t = "length all_checks"
  have t: "0 < ?t"
    using assms(1) by simp
  have pt: "?p \<le> ?t"
    by (rule length_filter_le)
  obtain sc where sc: "percent ?p ?t = Inr sc"
    using percent_total [OF t] by blast
  obtain cs where cs: "cat_scores_loop all_checks categories [] = Inr cs"
    using cat_scores_loop_total by blast
  define rep where "rep = \<lparr>score = sc, cat_scores = cs, verdict = verdict_of sc,
    issues = issues_of (filter (\<lambda>(k, v). \<not> pass v) all_checks),
    passing = passing_of (filter (\<lambda>(k, v). pass v) all_checks)\<rparr>"
  have r: "print_report domain all_checks load_time = Inr rep"
    by (simp add: print_report_def sc cs rep_def)
  have s: "score rep = sc"
    by (simp add: rep_def)
  have a: "sc = int (100 * ?p div ?t)" if "\<not> ?t dvd 100 * ?p"
    using percent_floor [OF t pt assms(2) that] sc by simp
  have a': "sc = int (100 * ?p div ?t)" if "?t < 50"
    using percent_small [OF t pt that] sc by simp
  have n: "int (100 * ?p div ?t) - 1 \<le> sc" "sc \<le> int (100 * ?p div ?t)"
    using percent_near [OF t pt assms(2)] sc by simp_all
  have b: "sc = 100" if "\<forall>(k, v) \<in> set all_checks. pass v"
  proof -
    from that have "filter (\<lambda>(k, v). pass v) all_checks = all_checks"
      by (auto simp: filter_id_conv)
    then show ?thesis
      using percent_all [OF t] sc by simp
  qed
  have c: "sc = 0" if "\<forall>(k, v) \<in> set all_checks. \<not> pass v"
  proof -
    from that have "filter (\<lambda>(k, v). pass v) all_checks = []"
      by (auto simp: filter_empty_conv)
    then show ?thesis
      using percent_none [OF t] sc by simp
  qed
  have e: "percent ?p ?t = Inr (score rep)"
    using sc s by simp
  from r e s a a' n b c show ?thesis
    by blast
qed

theorem overall_score_witness:
  "[(cps ''HSTS'', \<lparr>pass = True, impact = cps ''high'', category = cps ''security'',
                       detail = None\<rparr>),
      (cps ''CSP'', \<lparr>pass = True, impact = cps ''high'', category = cps ''security'',
                      detail = None\<rparr>),
      (cps ''X-Frame-Options'', \<lparr>pass = False, impact = cps ''medium'',
                                  category = cps ''security'', detail = None\<rparr>)] \<noteq> []
   \<and> length [(cps ''HSTS'', \<lparr>pass = True, impact = cps ''high'', category = cps ''security'',
                       detail = None\<rparr>),
      (cps ''CSP'', \<lparr>pass = True, impact = cps ''high'', category = cps ''security'',
                      detail = None\<rparr>),
      (cps ''X-Frame-Options'', \<lparr>pass = False, impact = cps ''medium'',
                                  category = cps ''security'', detail = None\<rparr>)] \<le> 2 ^ 44
   \<and> (\<exists>rep. print_report (cps ''a.io'')
          [(cps ''HSTS'', \<lparr>pass = True, impact = cps ''high'', category = cps ''security'',
                       detail = None\<rparr>),
      (cps ''CSP'', \<lparr>pass = True, impact = cps ''high'', category = cps ''security'',
                      detail = None\<rparr>),
      (cps ''X-Frame-Options'', \<lparr>pass = False, impact = cps ''medium'',
                                  category = cps ''security'', detail = None\<rparr>)] 150 = Inr rep
        \<and> score rep = 66)"
proof -
  define X where "X = [(cps ''HSTS'', \<lparr>pass = True, impact = cps ''high'', category = cps ''security'',
                       detail = None\<rparr>),
      (cps ''CSP'', \<lparr>pass = True, impact = cps ''high'', category = cps ''security'',
                      detail = None\<rparr>),
      (cps ''X-Frame-Options'', \<lparr>pass = False, impact = cps ''medium'',
                                  category = cps ''security'', detail = None\<rparr>)]"
  have n: "X \<noteq> []" and l: "length X \<le> 2 ^ 44"
    by (simp_all add: X_def)
  have f: "length (filter (\<lambda>(k, v). pass v) X) = 2" "length X = 3"
    by (simp_all add: X_def)
  have d: "\<not> (3::nat) dvd 100 * 2" "(100 * 2 div 3 :: nat) = 66"
    by simp_all
  show ?thesis
    using overall_score [OF n l, of "cps ''a.io''" 150] n l d unfolding f
    unfolding X_def by auto
qed

end
